theory Spec2Isabelle
  imports Complex_Main "HOL-Library.Word"
begin

section \<open>JavaScript values\<close>

text \<open>
  A JavaScript string is a sequence of UTF-16 code units; \<open>length\<close>, \<open>trim\<close>, \<open>===\<close>
  and the regular expressions of \<^verbatim>\<open>script.js\<close> (which carry no \<^verbatim>\<open>u\<close> flag) all work on code
  units. \<open>js\<close> embeds an ASCII literal of the source.
\<close>

type_synonym cu = "16 word"
type_synonym jsstring = "cu list"

definition js :: "string \<Rightarrow> jsstring" where
  "js s = map (\<lambda>c. of_nat (of_char c)) s"

text \<open>
  The script raises no exception of its own; what can fail is a property access on
  \<^verbatim>\<open>null\<close>, when a \<^verbatim>\<open>getElementById\<close> or \<^verbatim>\<open>querySelector\<close> whose result is used unguarded finds
  nothing.
\<close>

datatype js_error = TypeError

text \<open>
  \<^verbatim>\<open>a || b\<close> on a value that is a string or \<^verbatim>\<open>null\<close>: \<^verbatim>\<open>null\<close> and the empty string are
  falsy, every other string is truthy. \<open>truthy\<close> is the test behind \<^verbatim>\<open>!v\<close> and
  \<^verbatim>\<open>if (v)\<close>.
\<close>

definition truthy :: "jsstring option \<Rightarrow> bool" where
  "truthy v = (case v of None \<Rightarrow> False | Some s \<Rightarrow> s \<noteq> [])"

definition js_or :: "jsstring option \<Rightarrow> jsstring \<Rightarrow> jsstring" where
  "js_or v d = (if truthy v then the v else d)"

text \<open>
  White space as \<^verbatim>\<open>String.prototype.trim\<close> and the class \<^verbatim>\<open>\s\<close> know it: the WhiteSpace
  and LineTerminator code points of ECMAScript, all of them single code units.
\<close>

definition is_space :: "cu \<Rightarrow> bool" where
  "is_space c = (c = 0x09 \<or> c = 0x0A \<or> c = 0x0B \<or> c = 0x0C \<or> c = 0x0D \<or> c = 0x20 \<or>
     c = 0xA0 \<or> c = 0x1680 \<or> (0x2000 \<le> c \<and> c \<le> 0x200A) \<or> c = 0x2028 \<or> c = 0x2029 \<or>
     c = 0x202F \<or> c = 0x205F \<or> c = 0x3000 \<or> c = 0xFEFF)"

definition trim :: "jsstring \<Rightarrow> jsstring" where
  "trim s = rev (dropWhile is_space (rev (dropWhile is_space s)))"

text \<open>\<^verbatim>\<open>Array.prototype.join\<close> on an array of strings.\<close>

fun array_join :: "jsstring \<Rightarrow> jsstring list \<Rightarrow> jsstring" where
  "array_join sep [] = []"
| "array_join sep [x] = x"
| "array_join sep (x # y # ys) = x @ sep @ array_join sep (y # ys)"

text \<open>
  The digits of \<^verbatim>\<open>\d\<close> (and the complement \<^verbatim>\<open>\D\<close>) are the ASCII digits.
\<close>

definition is_digit :: "cu \<Rightarrow> bool" where
  "is_digit c = (0x30 \<le> c \<and> c \<le> 0x39)"

definition digit_value :: "cu \<Rightarrow> nat" where
  "digit_value c = unat c - 48"

subsection \<open>Numbers\<close>

text \<open>
  A JavaScript number is an IEEE double: \<^verbatim>\<open>NaN\<close>, one of the two infinities, or a finite
  double, which the model takes as the rational it is (so the two zeros are one). The
  result of an addition or a division of finite doubles is the exact result rounded:
  \<open>double\<close> rounds to nearest, ties to even, to 53 significant bits, or fewer below
  \<open>2^-1022\<close> where the doubles are the multiples of \<open>2^-1074\<close>; and \<open>js_number\<close> turns a
  rounded result beyond the largest double into an infinity.

  \<open>exponent x\<close>, for a positive \<open>x\<close>, is the integer \<open>e\<close> with \<open>2^e \<le> x < 2^(e+1)\<close>, found
  by halving or doubling.
\<close>

function exp_up :: "rat \<Rightarrow> int" where
  "exp_up x = (if 2 \<le> x then exp_up (x / 2) + 1 else 0)"
  by pat_completeness auto
termination
proof (relation "measure (\<lambda>x. nat \<lfloor>x\<rfloor>)")
  show "wf (measure (\<lambda>x :: rat. nat \<lfloor>x\<rfloor>))"
    by simp
next
  fix x :: rat
  assume big: "2 \<le> x"
  have "x - 1 < of_int \<lfloor>x\<rfloor>"
    by linarith
  with big have "x / 2 < of_int \<lfloor>x\<rfloor>"
    by linarith
  then have "\<lfloor>x / 2\<rfloor> < \<lfloor>x\<rfloor>"
    by (simp add: floor_less_iff)
  moreover have "0 < \<lfloor>x\<rfloor>"
    using big by simp
  ultimately have "nat \<lfloor>x / 2\<rfloor> < nat \<lfloor>x\<rfloor>"
    by linarith
  then show "(x / 2, x) \<in> measure (\<lambda>x. nat \<lfloor>x\<rfloor>)"
    by (simp only: in_measure)
qed

function exp_down :: "rat \<Rightarrow> int" where
  "exp_down x = (if 0 < x \<and> x < 1 then exp_down (x * 2) - 1 else 0)"
  by pat_completeness auto
termination
proof (relation "measure (\<lambda>x. nat \<lfloor>1 / x\<rfloor>)")
  show "wf (measure (\<lambda>x :: rat. nat \<lfloor>1 / x\<rfloor>))"
    by simp
next
  fix x :: rat
  assume small: "0 < x \<and> x < 1"
  define y where "y = 1 / x"
  have one: "1 \<le> y"
    using small by (simp add: y_def)
  then have "1 \<le> \<lfloor>y\<rfloor>"
    by simp
  then have "(1 :: rat) \<le> of_int \<lfloor>y\<rfloor>"
    by simp
  moreover have "y - 1 < of_int \<lfloor>y\<rfloor>"
    by linarith
  ultimately have "y / 2 < of_int \<lfloor>y\<rfloor>"
    by linarith
  then have "\<lfloor>y / 2\<rfloor> < \<lfloor>y\<rfloor>"
    by (simp add: floor_less_iff)
  moreover have "0 < \<lfloor>y\<rfloor>"
    using one by simp
  ultimately have less: "nat \<lfloor>y / 2\<rfloor> < nat \<lfloor>y\<rfloor>"
    by linarith
  have half: "1 / (x * 2) = y / 2"
    unfolding y_def by simp
  have "nat \<lfloor>1 / (x * 2)\<rfloor> < nat \<lfloor>1 / x\<rfloor>"
    unfolding half using less unfolding y_def .
  then show "(x * 2, x) \<in> measure (\<lambda>x. nat \<lfloor>1 / x\<rfloor>)"
    by (simp only: in_measure)
qed

declare exp_up.simps [simp del] exp_down.simps [simp del]

definition exponent :: "rat \<Rightarrow> int" where
  "exponent x = (if 1 \<le> x then exp_up x else exp_down x)"

definition round_half_even :: "rat \<Rightarrow> int" where
  "round_half_even r =
     (let f = \<lfloor>r\<rfloor>; d = r - of_int f
      in if d < 1 / 2 then f
         else if 1 / 2 < d then f + 1
         else if even f then f else f + 1)"

definition double :: "rat \<Rightarrow> rat" where
  "double x =
     (if x = 0 then 0
      else
        let q = 2 powi (max (exponent \<bar>x\<bar> - 52) (- 1074))
        in sgn x * of_int (round_half_even (\<bar>x\<bar> / q)) * q)"

datatype number = NaN | Num rat | PInf | NInf

definition max_double :: rat where
  "max_double = (2 ^ 53 - 1) * 2 ^ 971"

definition js_number :: "rat \<Rightarrow> number" where
  "js_number x =
     (let d = double x
      in if max_double < d then PInf else if d < - max_double then NInf else Num d)"

text \<open>
  The operators \<^verbatim>\<open>+\<close> (on numbers), \<^verbatim>\<open>/\<close> and \<^verbatim>\<open>>=\<close>, and \<^verbatim>\<open>Math.floor\<close>. Any operation on \<^verbatim>\<open>NaN\<close>
  gives \<^verbatim>\<open>NaN\<close>, any comparison with it is false. A zero divisor is taken as the positive
  zero; the script divides by 50 only. The floor of a double is a double.
\<close>

fun js_add :: "number \<Rightarrow> number \<Rightarrow> number" where
  "js_add (Num a) (Num b) = js_number (a + b)"
| "js_add NaN _ = NaN"
| "js_add _ NaN = NaN"
| "js_add PInf NInf = NaN"
| "js_add NInf PInf = NaN"
| "js_add PInf _ = PInf"
| "js_add _ PInf = PInf"
| "js_add NInf _ = NInf"
| "js_add _ NInf = NInf"

fun js_divide :: "number \<Rightarrow> number \<Rightarrow> number" where
  "js_divide (Num a) (Num b) =
     (if b = 0 then (if a = 0 then NaN else if 0 < a then PInf else NInf)
      else js_number (a / b))"
| "js_divide (Num a) PInf = Num 0"
| "js_divide (Num a) NInf = Num 0"
| "js_divide PInf (Num b) = (if 0 \<le> b then PInf else NInf)"
| "js_divide NInf (Num b) = (if 0 \<le> b then NInf else PInf)"
| "js_divide _ _ = NaN"

fun js_ge :: "number \<Rightarrow> number \<Rightarrow> bool" where
  "js_ge (Num a) (Num b) = (a \<ge> b)"
| "js_ge NaN _ = False"
| "js_ge _ NaN = False"
| "js_ge PInf _ = True"
| "js_ge _ NInf = True"
| "js_ge _ _ = False"

fun Math_floor :: "number \<Rightarrow> number" where
  "Math_floor (Num a) = Num (of_int \<lfloor>a\<rfloor>)"
| "Math_floor x = x"

text \<open>
  The decimal digits of a natural number, and the string a number turns into when it is
  added to a string. The script does this with the target and with results of
  \<^verbatim>\<open>Math.floor\<close>, so with \<^verbatim>\<open>NaN\<close>, an infinity, or an integer. Up to \<open>2^53\<close> an integer
  prints as its decimal digits, which is what \<open>number_toString\<close> gives; beyond,
  JavaScript prints the shortest digits that identify the double, and the properties
  below do not go there.
\<close>

fun show_nat :: "nat \<Rightarrow> jsstring" where
  "show_nat n = (if n < 10 then [of_nat (48 + n)]
                 else show_nat (n div 10) @ [of_nat (48 + n mod 10)])"

declare show_nat.simps [simp del]

fun number_toString :: "number \<Rightarrow> jsstring" where
  "number_toString NaN = js ''NaN''"
| "number_toString PInf = js ''Infinity''"
| "number_toString NInf = js ''-Infinity''"
| "number_toString (Num a) = (if a < 0 then js ''-'' else []) @ show_nat (nat \<lfloor>\<bar>a\<bar>\<rfloor>)"

text \<open>
  \<^verbatim>\<open>parseInt\<close> with one argument, on what the script passes to it: a string of digits
  only (so no white space, sign or \<^verbatim>\<open>0x\<close> prefix to skip). It reads the leading digits in
  base ten and gives their value as a number, or \<^verbatim>\<open>NaN\<close> when there are none. (Past 20
  digits an implementation may read the further digits as zeros; the model reads them
  all.)
\<close>

definition decimal :: "jsstring \<Rightarrow> nat" where
  "decimal digits = foldl (\<lambda>n c. 10 * n + digit_value c) 0 digits"

definition parseInt :: "jsstring \<Rightarrow> number" where
  "parseInt s =
     (let digits = takeWhile is_digit s
      in if digits = [] then NaN else js_number (of_nat (decimal digits)))"

subsection \<open>Regular expressions\<close>

text \<open>
  The one regular expression that decides something in the script is
  \<^verbatim>\<open>/^[^\s@]+@[^\s@]+\.[^\s@]+$/\<close>: a sequence of pieces, each a character or a negated
  character class, taken once or one or more times, between \<^verbatim>\<open>^\<close> and \<^verbatim>\<open>$\<close>. Without the
  \<^verbatim>\<open>m\<close> flag the two anchors stand for the start and the end of the input, so \<^verbatim>\<open>test\<close>
  asks whether the whole string matches. \<open>regex_test\<close> runs the pieces over the string
  the way a backtracking matcher does: a repeated piece takes one more character, or
  hands over to the rest of the pattern.
\<close>

datatype class_item = Space | Ch cu
datatype atom = Lit cu | NoneOf "class_item list"
datatype piece = Once atom | OneOrMore atom

fun item_has :: "class_item \<Rightarrow> cu \<Rightarrow> bool" where
  "item_has Space c = is_space c"
| "item_has (Ch x) c = (c = x)"

fun atom_accepts :: "atom \<Rightarrow> cu \<Rightarrow> bool" where
  "atom_accepts (Lit x) c = (c = x)"
| "atom_accepts (NoneOf items) c = (\<not> list_ex (\<lambda>i. item_has i c) items)"

fun regex_test :: "piece list \<Rightarrow> jsstring \<Rightarrow> bool" where
  "regex_test [] s = (s = [])"
| "regex_test (p # ps) [] = False"
| "regex_test (Once a # ps) (c # cs) = (atom_accepts a c \<and> regex_test ps cs)"
| "regex_test (OneOrMore a # ps) (c # cs) =
     (atom_accepts a c \<and> (regex_test (OneOrMore a # ps) cs \<or> regex_test ps cs))"

section \<open>Theme toggle\<close>

text \<open>
  What \<^verbatim>\<open>initTheme\<close> finds when the page is ready: the preference store, the answer of
  the media query \<^verbatim>\<open>(prefers-color-scheme: dark)\<close>, whether the element \<^verbatim>\<open>#themeToggle\<close>
  exists, and the text of the \<^verbatim>\<open>.theme-icon\<close> inside it (\<open>None\<close> when there is none).
\<close>

record theme_page =
  pageStorage :: "jsstring \<rightharpoonup> jsstring"
  prefersDark :: bool
  themeToggle :: bool
  themeIcon :: "jsstring option"

text \<open>
  After \<^verbatim>\<open>initTheme\<close> has run: the store, the \<^verbatim>\<open>data-theme\<close> attribute, the icon's text and
  the variable \<^verbatim>\<open>currentTheme\<close> that the two listeners close over. The icon is held by
  the closure, so it exists from here on.
\<close>

record theme_state =
  localStorage :: "jsstring \<rightharpoonup> jsstring"
  dataTheme :: "jsstring option"
  iconText :: jsstring
  currentTheme :: jsstring

text \<open>\<^verbatim>\<open>updateThemeIcon(icon, theme)\<close>: the new text of a (non-null) icon.\<close>

definition updateThemeIcon :: "jsstring \<Rightarrow> jsstring \<Rightarrow> jsstring" where
  "updateThemeIcon icon theme =
     (if theme = js ''dark'' then [0x2600, 0xFE0F] else [0xD83C, 0xDF19])"

text \<open>
  \<^verbatim>\<open>initTheme\<close>, lines 8 to 37. Line 10 fails when the toggle is missing; line 19 fails
  inside \<^verbatim>\<open>updateThemeIcon\<close> when the icon is missing, after line 18 has already set the
  attribute (the page is then left without listeners; the error value stands for that
  outcome).
\<close>

definition initTheme :: "theme_page \<Rightarrow> js_error + theme_state" where
  "initTheme p =
     (if \<not> themeToggle p then Inl TypeError
      else
        let savedTheme = pageStorage p (js ''theme'');
            theme = js_or savedTheme (if prefersDark p then js ''dark'' else js ''light'')
        in case themeIcon p of
             None \<Rightarrow> Inl TypeError
           | Some icon \<Rightarrow>
               Inr \<lparr> localStorage = pageStorage p,
                     dataTheme = Some theme,
                     iconText = updateThemeIcon icon theme,
                     currentTheme = theme \<rparr>)"

text \<open>The click listener of the toggle, lines 22 to 27.\<close>

definition on_click :: "theme_state \<Rightarrow> theme_state" where
  "on_click s =
     (let theme = (if currentTheme s = js ''light'' then js ''dark'' else js ''light'')
      in s \<lparr> currentTheme := theme,
             dataTheme := Some theme,
             localStorage := (localStorage s)(js ''theme'' \<mapsto> theme),
             iconText := updateThemeIcon (iconText s) theme \<rparr>)"

text \<open>
  The \<^verbatim>\<open>change\<close> listener of the media query, lines 30 to 36; \<open>m\<close> is \<^verbatim>\<open>e.matches\<close>.
  It does not assign \<^verbatim>\<open>currentTheme\<close>.
\<close>

definition on_change :: "bool \<Rightarrow> theme_state \<Rightarrow> theme_state" where
  "on_change m s =
     (if \<not> truthy (localStorage s (js ''theme'')) then
        let newTheme = (if m then js ''dark'' else js ''light'')
        in s \<lparr> dataTheme := Some newTheme,
               iconText := updateThemeIcon (iconText s) newTheme \<rparr>
      else s)"

text \<open>The events the theme coordinator listens to, and a run over a sequence of them.\<close>

datatype theme_event = Click | SystemChange bool

fun theme_step :: "theme_state \<Rightarrow> theme_event \<Rightarrow> theme_state" where
  "theme_step s Click = on_click s"
| "theme_step s (SystemChange m) = on_change m s"

definition theme_run :: "theme_state \<Rightarrow> theme_event list \<Rightarrow> theme_state" where
  "theme_run s es = foldl theme_step s es"

section \<open>Active navigation link\<close>

text \<open>
  \<^verbatim>\<open>initActiveNavHighlight\<close> collects the \<^verbatim>\<open>section[id]\<close> elements and the \<^verbatim>\<open>.nav-link\<close>
  elements once; \<^verbatim>\<open>updateActiveNav\<close> reads their geometry and the scroll offset on each
  call. A link's \<^verbatim>\<open>href\<close> attribute may be missing (\<^verbatim>\<open>getAttribute\<close> then gives \<^verbatim>\<open>null\<close>); of
  its class list only \<^verbatim>\<open>active\<close> matters here. \<^verbatim>\<open>offsetTop\<close> and \<^verbatim>\<open>offsetHeight\<close> are
  integers (the DOM declares them \<^verbatim>\<open>long\<close>, 32 bits, which \<open>is_long\<close> says), \<^verbatim>\<open>window.scrollY\<close>
  is a double, and the two sums of \<^verbatim>\<open>updateActiveNav\<close> are sums of doubles.
\<close>

record page_section =
  sectionId :: jsstring
  offsetTop :: int
  offsetHeight :: int

definition is_long :: "int \<Rightarrow> bool" where
  "is_long k \<longleftrightarrow> - (2 ^ 31) \<le> k \<and> k < 2 ^ 31"

record nav_link =
  href :: "jsstring option"
  active :: bool

record nav_state =
  sections :: "page_section list"
  navLinks :: "nav_link list"
  scrollY :: rat

text \<open>
  The inner \<^verbatim>\<open>navLinks.forEach\<close>, used at lines 99 to 104 and 110 to 115: every link loses
  \<^verbatim>\<open>active\<close>, and gets it back when its \<^verbatim>\<open>href\<close> is the target.
\<close>

definition activateLinks :: "jsstring \<Rightarrow> nav_link list \<Rightarrow> nav_link list" where
  "activateLinks target links =
     map (\<lambda>link. let link' = link \<lparr> active := False \<rparr>
                  in if href link' = Some target then link' \<lparr> active := True \<rparr> else link') links"

text \<open>\<^verbatim>\<open>updateActiveNav\<close>, lines 90 to 117: the loop over the sections, then the case of the top of the page.\<close>

definition updateActiveNav :: "nav_state \<Rightarrow> nav_state" where
  "updateActiveNav st =
     (let scrollPosition = double (scrollY st + 100);
          links1 = foldl (\<lambda>links sec.
                      if scrollPosition \<ge> of_int (offsetTop sec) \<and>
                         scrollPosition < double (of_int (offsetTop sec) + of_int (offsetHeight sec))
                      then activateLinks (js ''#'' @ sectionId sec) links
                      else links)
                    (navLinks st) (sections st);
          links2 = (if scrollY st < 100 then activateLinks (js ''#home'') links1 else links1)
      in st \<lparr> navLinks := links2 \<rparr>)"

text \<open>Line 122, the initial update, and line 120, the scroll listener (the browser has moved the page to offset \<open>y\<close>).\<close>

definition initActiveNavHighlight :: "nav_state \<Rightarrow> nav_state" where
  "initActiveNavHighlight st = updateActiveNav st"

definition on_scroll :: "rat \<Rightarrow> nav_state \<Rightarrow> nav_state" where
  "on_scroll y st = updateActiveNav (st \<lparr> scrollY := y \<rparr>)"

text \<open>
  The specification's words: a section's bounds \<open>[top, top + height)\<close> contain a position,
  and exactly the links that target an anchor are active.
\<close>

definition in_bounds :: "rat \<Rightarrow> page_section \<Rightarrow> bool" where
  "in_bounds pos sec =
     (of_int (offsetTop sec) \<le> pos \<and> pos < of_int (offsetTop sec) + of_int (offsetHeight sec))"

definition only_active :: "jsstring \<Rightarrow> nav_link list \<Rightarrow> nav_link list" where
  "only_active target links = map (\<lambda>link. link \<lparr> active := (href link = Some target) \<rparr>) links"

section \<open>Contact form\<close>

text \<open>
  The submit listener reads four elements by their ids and never checks that it found
  them. A field has its current value and the default value that \<^verbatim>\<open>reset()\<close> restores
  (the \<^verbatim>\<open>value\<close> attribute, or a text area's content, in the page's markup). The page also
  has the elements of class \<^verbatim>\<open>form-message\<close>, in document order; of a message element the
  class name, the HTML content and which of the two styles it got are kept. The removal
  of a message after 5000 ms is a later event and not part of a submission.
\<close>

record form_field =
  fieldValue :: jsstring
  defaultValue :: jsstring

record message_element =
  className :: jsstring
  innerHTML :: jsstring
  successStyle :: bool

record form_page =
  nameField :: "form_field option"
  emailField :: "form_field option"
  subjectField :: "form_field option"
  messageField :: "form_field option"
  formMessages :: "message_element list"

text \<open>\<^verbatim>\<open>isValidEmail\<close>, lines 258 to 261.\<close>

definition emailRegex :: "piece list" where
  "emailRegex = [OneOrMore (NoneOf [Space, Ch 0x40]), Once (Lit 0x40),
                 OneOrMore (NoneOf [Space, Ch 0x40]), Once (Lit 0x2E),
                 OneOrMore (NoneOf [Space, Ch 0x40])]"

definition isValidEmail :: "jsstring \<Rightarrow> bool" where
  "isValidEmail email = regex_test emailRegex email"

text \<open>
  \<^verbatim>\<open>showFormMessage\<close>, lines 266 to 296: the first existing message element, if any, is
  removed, and a new one is appended to the form.
\<close>

definition showFormMessage :: "jsstring \<Rightarrow> jsstring \<Rightarrow> form_page \<Rightarrow> form_page" where
  "showFormMessage message type p =
     (let remaining = (case formMessages p of [] \<Rightarrow> [] | existingMessage # others \<Rightarrow> others);
          messageElement = \<lparr> className = js ''form-message '' @ type,
                             innerHTML = message,
                             successStyle = (type = js ''success'') \<rparr>
      in p \<lparr> formMessages := remaining @ [messageElement] \<rparr>)"

text \<open>\<^verbatim>\<open>contactForm.reset()\<close>: every field of the form goes back to its default value.\<close>

definition form_reset :: "form_page \<Rightarrow> form_page" where
  "form_reset p =
     (let restore = map_option (\<lambda>f. f \<lparr> fieldValue := defaultValue f \<rparr>)
      in p \<lparr> nameField := restore (nameField p),
             emailField := restore (emailField p),
             subjectField := restore (subjectField p),
             messageField := restore (messageField p) \<rparr>)"

text \<open>
  Lines 214 to 241 of the submit listener, on the four trimmed values: the flag
  \<^verbatim>\<open>isValid\<close> and the array \<^verbatim>\<open>errors\<close>, threaded through the four \<^verbatim>\<open>if\<close> statements. A string
  is falsy when it is empty.
\<close>

definition validate :: "jsstring \<Rightarrow> jsstring \<Rightarrow> jsstring \<Rightarrow> jsstring \<Rightarrow> bool \<times> jsstring list" where
  "validate name email subject message =
     (let isValid = True;
          errors = [];
          (isValid, errors) =
            (if name = [] then (False, errors @ [js ''Name is required''])
             else (isValid, errors));
          (isValid, errors) =
            (if email = [] then (False, errors @ [js ''Email is required''])
             else if \<not> isValidEmail email
               then (False, errors @ [js ''Please enter a valid email address''])
             else (isValid, errors));
          (isValid, errors) =
            (if subject = [] then (False, errors @ [js ''Subject is required''])
             else (isValid, errors));
          (isValid, errors) =
            (if message = [] then (False, errors @ [js ''Message is required''])
             else if length message < 10
               then (False, errors @ [js ''Message must be at least 10 characters long''])
             else (isValid, errors))
      in (isValid, errors))"

text \<open>
  The submit listener, lines 204 to 251. Reading \<^verbatim>\<open>.value\<close> of a missing element is a
  \<^verbatim>\<open>TypeError\<close>, raised before anything on the page has changed.
\<close>

definition on_submit :: "form_page \<Rightarrow> js_error + form_page" where
  "on_submit p =
     (case nameField p of None \<Rightarrow> Inl TypeError | Some nameEl \<Rightarrow>
     (case emailField p of None \<Rightarrow> Inl TypeError | Some emailEl \<Rightarrow>
     (case subjectField p of None \<Rightarrow> Inl TypeError | Some subjectEl \<Rightarrow>
     (case messageField p of None \<Rightarrow> Inl TypeError | Some messageEl \<Rightarrow>
        (let name = trim (fieldValue nameEl);
             email = trim (fieldValue emailEl);
             subject = trim (fieldValue subjectEl);
             message = trim (fieldValue messageEl);
             (isValid, errors) = validate name email subject message
         in if isValid
            then Inr (form_reset (showFormMessage
                   (js ''Thank you for your message! I'll get back to you soon.'')
                   (js ''success'') p))
            else Inr (showFormMessage (array_join (js ''<br>'') errors) (js ''error'') p))))))"

text \<open>
  The specification's words for the shape of an email address: one or more characters
  that are neither white space nor \<^verbatim>\<open>@\<close>, then \<^verbatim>\<open>@\<close>, one or more such characters, a dot,
  and one or more such characters.
\<close>

definition non_space_non_at :: "cu \<Rightarrow> bool" where
  "non_space_non_at c = (\<not> is_space c \<and> c \<noteq> 0x40)"

definition email_shape :: "jsstring \<Rightarrow> bool" where
  "email_shape e =
     (\<exists>local domain tld.
        e = local @ [0x40] @ domain @ [0x2E] @ tld \<and>
        local \<noteq> [] \<and> domain \<noteq> [] \<and> tld \<noteq> [] \<and>
        list_all non_space_non_at local \<and> list_all non_space_non_at domain \<and>
        list_all non_space_non_at tld)"

text \<open>
  The specification's words for the outcome of validation: four rules, each on its own
  field, and the messages of exactly the violated ones in the order name, email,
  subject, message. The rules are: name non-empty; email non-empty and of the shape
  above; subject non-empty; message non-empty and at least 10 long. The wording of the
  messages is the script's.
\<close>

definition violations :: "jsstring \<Rightarrow> jsstring \<Rightarrow> jsstring \<Rightarrow> jsstring \<Rightarrow> jsstring list" where
  "violations name email subject message =
     (if name \<noteq> [] then [] else [js ''Name is required'']) @
     (if email \<noteq> [] \<and> email_shape email then []
      else [if email = [] then js ''Email is required''
            else js ''Please enter a valid email address'']) @
     (if subject \<noteq> [] then [] else [js ''Subject is required'']) @
     (if message \<noteq> [] \<and> 10 \<le> length message then []
      else [if message = [] then js ''Message is required''
            else js ''Message must be at least 10 characters long''])"

text \<open>A page whose four fields hold the given values, with empty defaults and no message shown.\<close>

definition form_with :: "jsstring \<Rightarrow> jsstring \<Rightarrow> jsstring \<Rightarrow> jsstring \<Rightarrow> form_page" where
  "form_with name email subject message =
     \<lparr> nameField = Some \<lparr> fieldValue = name, defaultValue = [] \<rparr>,
       emailField = Some \<lparr> fieldValue = email, defaultValue = [] \<rparr>,
       subjectField = Some \<lparr> fieldValue = subject, defaultValue = [] \<rparr>,
       messageField = Some \<lparr> fieldValue = message, defaultValue = [] \<rparr>,
       formMessages = [] \<rparr>"

section \<open>Counter animation\<close>

text \<open>
  \<^verbatim>\<open>animateCounter(element)\<close>, lines 370 to 387. The record holds the variables the timer
  callback closes over, the element's text, and whether \<^verbatim>\<open>clearInterval\<close> has been called.
  \<open>animateCounter\<close> is the part that runs at once; \<open>tick\<close> is one call of the timer
  callback, which no longer happens once the timer is cleared; \<open>ticks k\<close> is the first
  \<open>k\<close> ticks of the timer.
\<close>

record counter =
  target :: number
  suffix :: jsstring
  current :: number
  increment :: number
  stepTime :: number
  textContent :: jsstring
  cleared :: bool

definition animateCounter :: "jsstring \<Rightarrow> counter" where
  "animateCounter text =
     (let target = parseInt (filter is_digit text);
          suffix = filter (\<lambda>c. \<not> is_digit c) text;
          current = Num 0;
          increment = js_divide target (Num 50);
          duration = Num 2000;
          stepTime = js_divide duration (Num 50)
      in \<lparr> target = target, suffix = suffix, current = current, increment = increment,
           stepTime = stepTime, textContent = text, cleared = False \<rparr>)"

definition tick :: "counter \<Rightarrow> counter" where
  "tick c =
     (if cleared c then c
      else
        let current' = js_add (current c) (increment c)
        in if js_ge current' (target c)
           then c \<lparr> current := current',
                    textContent := number_toString (target c) @ suffix c,
                    cleared := True \<rparr>
           else c \<lparr> current := current',
                    textContent := number_toString (Math_floor current') @ suffix c \<rparr>)"

definition ticks :: "nat \<Rightarrow> counter \<Rightarrow> counter" where
  "ticks k c = (tick ^^ k) c"

text \<open>
  The closed form of a running counter whose target is a positive multiple of 50, after
  \<open>k < 50\<close> ticks: what the lemmas below show \<open>ticks k\<close> to produce.
\<close>

definition running :: "jsstring \<Rightarrow> nat \<Rightarrow> counter" where
  "running t k =
     (let n = decimal (filter is_digit t)
      in \<lparr> target = Num (of_nat n),
           suffix = filter (\<lambda>c. \<not> is_digit c) t,
           current = Num (of_nat (k * (n div 50))),
           increment = Num (of_nat (n div 50)),
           stepTime = Num 40,
           textContent = (if k = 0 then t
                          else show_nat (k * (n div 50)) @ filter (\<lambda>c. \<not> is_digit c) t),
           cleared = False \<rparr>)"


section \<open>Intersection observers\<close>

text \<open>
  Elements are told apart by an identity. An observer has a set of observed targets; the
  browser hands its callback batches of entries, each naming a target and whether it
  now intersects. Of the threshold crossings that happen, the callback receives those
  whose target is observed when the batch is delivered; a batch may name a target more
  than once.
\<close>

type_synonym element = nat

record entry =
  entryTarget :: element
  isIntersecting :: bool

text \<open>
  \<^verbatim>\<open>initScrollAnimations\<close>, lines 167 to 191: the observed elements and the elements whose
  class list has \<^verbatim>\<open>visible\<close>. \<open>fade_entry\<close> is the body of the callback's loop.
\<close>

record fade_state =
  observed :: "element set"
  visible :: "element set"

definition initScrollAnimations :: "element list \<Rightarrow> element set \<Rightarrow> fade_state" where
  "initScrollAnimations fadeElements shown = \<lparr> observed = set fadeElements, visible = shown \<rparr>"

definition fade_entry :: "fade_state \<Rightarrow> entry \<Rightarrow> fade_state" where
  "fade_entry st en =
     (if isIntersecting en
      then st \<lparr> visible := insert (entryTarget en) (visible st),
                observed := observed st - {entryTarget en} \<rparr>
      else st)"

definition fade_callback :: "fade_state \<Rightarrow> entry list \<Rightarrow> fade_state" where
  "fade_callback st entries = foldl fade_entry st entries"

definition fade_notify :: "fade_state \<Rightarrow> entry list \<Rightarrow> fade_state" where
  "fade_notify st records =
     fade_callback st (filter (\<lambda>en. entryTarget en \<in> observed st) records)"

definition fade_run :: "fade_state \<Rightarrow> entry list list \<Rightarrow> fade_state" where
  "fade_run st batches = foldl fade_notify st batches"

text \<open>
  \<^verbatim>\<open>initCounterAnimation\<close>, lines 367 to 401: the observed \<^verbatim>\<open>.stat-number\<close> elements, their
  text, the elements whose class list has \<^verbatim>\<open>counted\<close>, and the interval timers created so
  far, each with the element it animates. \<open>counter_entry\<close> is the body of the callback's
  loop; \<open>timer_fires\<close> is one callback of the timer at a position of that list.
\<close>

record stats_state =
  statNumbers :: "element set"
  statText :: "element \<Rightarrow> jsstring"
  counted :: "element set"
  timers :: "(element \<times> counter) list"

definition initCounterAnimation ::
    "element list \<Rightarrow> (element \<Rightarrow> jsstring) \<Rightarrow> element set \<Rightarrow> stats_state" where
  "initCounterAnimation stats texts marked =
     \<lparr> statNumbers = set stats, statText = texts, counted = marked, timers = [] \<rparr>"

definition counter_entry :: "stats_state \<Rightarrow> entry \<Rightarrow> stats_state" where
  "counter_entry st en =
     (if isIntersecting en \<and> entryTarget en \<notin> counted st
      then st \<lparr> counted := insert (entryTarget en) (counted st),
                timers := timers st @
                  [(entryTarget en, animateCounter (statText st (entryTarget en)))] \<rparr>
      else st)"

definition counter_notify :: "stats_state \<Rightarrow> entry list \<Rightarrow> stats_state" where
  "counter_notify st records =
     foldl counter_entry st (filter (\<lambda>en. entryTarget en \<in> statNumbers st) records)"

definition timer_fires :: "stats_state \<Rightarrow> nat \<Rightarrow> stats_state" where
  "timer_fires st i =
     (if i < length (timers st) then
        let (el, c) = timers st ! i
        in if cleared c then st
           else st \<lparr> timers := (timers st)[i := (el, tick c)],
                     statText := (statText st)(el := textContent (tick c)) \<rparr>
      else st)"

datatype stats_event = Notify "entry list" | Tick nat

fun stats_step :: "stats_state \<Rightarrow> stats_event \<Rightarrow> stats_state" where
  "stats_step st (Notify records) = counter_notify st records"
| "stats_step st (Tick i) = timer_fires st i"

definition stats_run :: "stats_state \<Rightarrow> stats_event list \<Rightarrow> stats_state" where
  "stats_run st events = foldl stats_step st events"

text \<open>How many times \<^verbatim>\<open>animateCounter\<close> has been called for an element.\<close>

definition animations :: "element \<Rightarrow> stats_state \<Rightarrow> nat" where
  "animations x st = count_list (map fst (timers st)) x"

section \<open>Properties of the rounding\<close>

lemma exp_up_bounds: "1 \<le> x \<Longrightarrow> 0 \<le> exp_up x \<and> 2 powi exp_up x \<le> x \<and> x < 2 powi (exp_up x + 1)"
proof (induction x rule: exp_up.induct)
  case (1 x)
  show ?case
  proof (cases "2 \<le> x")
    case True
    then have "1 \<le> x / 2"
      by simp
    with 1 True have ih: "0 \<le> exp_up (x / 2)" "2 powi exp_up (x / 2) \<le> x / 2"
      "x / 2 < 2 powi (exp_up (x / 2) + 1)"
      by simp_all
    have e: "exp_up x = exp_up (x / 2) + 1"
      using True by (subst exp_up.simps) simp
    from ih show ?thesis
      unfolding e by (simp add: power_int_add field_simps)
  next
    case False
    then have "exp_up x = 0"
      by (subst exp_up.simps) simp
    with False 1 show ?thesis
      by simp
  qed
qed

lemma exp_down_bounds:
  "0 < x \<Longrightarrow> x < 1 \<Longrightarrow> exp_down x < 0 \<and> 2 powi exp_down x \<le> x \<and> x < 2 powi (exp_down x + 1)"
proof (induction x rule: exp_down.induct)
  case (1 x)
  have e: "exp_down x = exp_down (x * 2) - 1"
    using "1.prems" by (subst exp_down.simps) simp
  show ?case
  proof (cases "x * 2 < 1")
    case True
    with 1 have ih: "exp_down (x * 2) < 0" "2 powi exp_down (x * 2) \<le> x * 2"
      "x * 2 < 2 powi (exp_down (x * 2) + 1)"
      by simp_all
    from ih show ?thesis
      unfolding e by (simp add: power_int_add power_int_diff field_simps)
  next
    case False
    then have "exp_down (x * 2) = 0"
      by (subst exp_down.simps) simp
    with False "1.prems" show ?thesis
      unfolding e by (simp add: power_int_minus field_simps)
  qed
qed

lemma exponent_bounds:
  assumes "0 < x"
  shows "2 powi exponent x \<le> x \<and> x < 2 powi (exponent x + 1)"
  using assms exp_up_bounds [of x] exp_down_bounds [of x]
  by (cases "1 \<le> x") (simp_all add: exponent_def)


lemma round_half_even_of_int: "round_half_even (of_int k) = k"
  by (simp add: round_half_even_def)

lemma round_half_even_lower: "r - 1 / 2 \<le> of_int (round_half_even r)"
proof -
  have "r - 1 < of_int \<lfloor>r\<rfloor>" and "of_int \<lfloor>r\<rfloor> \<le> r"
    by linarith+
  then show ?thesis
    by (auto simp: round_half_even_def Let_def)
qed

lemma round_half_even_nonneg: "0 \<le> r \<Longrightarrow> 0 \<le> round_half_even r"
  by (auto simp: round_half_even_def Let_def)

lemma double_nonneg:
  assumes "0 \<le> x"
  shows "0 \<le> double x"
proof (cases "x = 0")
  case True
  then show ?thesis
    by (simp add: double_def)
next
  case False
  with assms have pos: "0 < x"
    by simp
  define q :: rat where "q = 2 powi (max (exponent x - 52) (- 1074))"
  have q: "0 < q"
    by (simp add: q_def)
  then have "0 \<le> x / q"
    using pos by simp
  then have "0 \<le> round_half_even (x / q)"
    by (rule round_half_even_nonneg)
  moreover have "double x = of_int (round_half_even (x / q)) * q"
    using pos by (simp add: double_def q_def Let_def)
  ultimately show ?thesis
    using q by simp
qed

lemma normal_exponent:
  assumes "1 / 2 ^ 1022 \<le> x"
  shows "max (exponent x - 52) (- 1074) = exponent x - 52"
proof -
  have pos: "0 < x"
    using assms by (rule less_le_trans [rotated]) simp
  have "- 1022 \<le> exponent x"
  proof (rule ccontr)
    assume "\<not> - 1022 \<le> exponent x"
    then have "exponent x + 1 \<le> - 1022"
      by simp
    then have "(2 :: rat) powi (exponent x + 1) \<le> 2 powi (- 1022)"
      by (intro power_int_increasing) simp_all
    moreover have "x < 2 powi (exponent x + 1)"
      using exponent_bounds [OF pos] by simp
    moreover have "(2 :: rat) powi (- 1022) = 1 / 2 ^ 1022"
      by (simp add: power_int_minus field_simps)
    ultimately show False
      using assms by simp
  qed
  then show ?thesis
    by simp
qed

lemma double_lower:
  assumes "1 / 2 ^ 1022 \<le> x"
  shows "(1 - 1 / 2 ^ 53) * x \<le> double x"
proof -
  have pos: "0 < x"
    using assms by (rule less_le_trans [rotated]) simp
  define q :: rat where "q = 2 powi (exponent x - 52)"
  have q: "0 < q"
    by (simp add: q_def)
  have "2 powi exponent x \<le> x"
    using exponent_bounds [OF pos] by simp
  moreover have "(2 :: rat) powi exponent x = q * 2 ^ 52"
    by (simp add: q_def power_int_diff)
  ultimately have big: "q * 2 ^ 52 \<le> x"
    by simp
  have "x / q - 1 / 2 \<le> of_int (round_half_even (x / q))"
    by (rule round_half_even_lower)
  then have "(x / q - 1 / 2) * q \<le> of_int (round_half_even (x / q)) * q"
    using q by (simp only: mult_le_cancel_right_pos)
  moreover have "(x / q - 1 / 2) * q = x - q / 2"
    using q by (simp add: field_simps)
  ultimately have "x - q / 2 \<le> of_int (round_half_even (x / q)) * q"
    by simp
  moreover have "double x = of_int (round_half_even (x / q)) * q"
    using pos by (simp add: double_def q_def Let_def normal_exponent [OF assms])
  moreover have "q / 2 \<le> x / 2 ^ 53"
    using big by (simp add: field_simps)
  ultimately have "x - x / 2 ^ 53 \<le> double x"
    by linarith
  then show ?thesis
    by (simp add: field_simps)
qed

lemma double_of_nat:
  assumes "n \<le> 2 ^ 53"
  shows "double (of_nat n) = of_nat n"
proof (cases "n = 0")
  case True
  then show ?thesis
    by (simp add: double_def)
next
  case False
  define x :: rat where "x = of_nat n"
  define e where "e = exponent x"
  have pos: "0 < x" and one: "1 \<le> x"
    using False by (simp_all add: x_def)
  have le: "x \<le> 2 ^ 53"
  proof -
    have "(of_nat n :: rat) \<le> of_nat (2 ^ 53)"
      using assms by (simp only: of_nat_le_iff)
    then show ?thesis
      by (simp add: x_def)
  qed
  have b: "2 powi e \<le> x" "x < 2 powi (e + 1)"
    using exponent_bounds [OF pos] by (simp_all add: e_def)
  have e0: "0 \<le> e"
    using exp_up_bounds [OF one] one by (simp add: e_def exponent_def)
  have e53: "e \<le> 53"
  proof (rule ccontr)
    assume "\<not> e \<le> 53"
    then have "54 \<le> e"
      by simp
    then have "(2 :: rat) powi 54 \<le> 2 powi e"
      by (intro power_int_increasing) simp_all
    with b(1) le show False
      by simp
  qed
  have int_quot: "\<exists>k :: int. x / 2 powi (e - 52) = of_int k"
  proof (cases "e \<le> 52")
    case True
    then have "(2 :: rat) powi (e - 52) = 1 / 2 ^ nat (52 - e)"
      by (simp add: power_int_def field_simps)
    then have "x / 2 powi (e - 52) = of_int (int n * 2 ^ nat (52 - e))"
      by (simp add: x_def)
    then show ?thesis ..
  next
    case False
    with e53 have e: "e = 53"
      by simp
    then have "(2 :: rat) ^ 53 \<le> x"
      using b(1) by simp
    with le have "x = 2 ^ 53"
      by simp
    then have "x / 2 powi (e - 52) = of_int (2 ^ 52)"
      by (simp add: e)
    then show ?thesis ..
  qed
  then obtain k :: int where k: "x / 2 powi (e - 52) = of_int k"
    by blast
  have "max (e - 52) (- 1074) = e - 52"
    using e0 by simp
  then have "double x = of_int (round_half_even (x / 2 powi (e - 52))) * 2 powi (e - 52)"
    using pos by (simp add: double_def e_def Let_def)
  also have "\<dots> = of_int k * 2 powi (e - 52)"
    by (simp only: k round_half_even_of_int)
  also have "\<dots> = x"
    using k by (simp add: field_simps)
  finally show ?thesis
    by (simp add: x_def)
qed

text \<open>Results in the range of the doubles.\<close>

lemma max_double_large: "2 ^ 53 \<le> max_double"
  by (simp add: max_double_def)

lemma js_number_nonneg:
  assumes "0 \<le> x"
  shows "js_number x = PInf \<or> js_number x = Num (double x)"
proof -
  have "0 \<le> max_double"
    using max_double_large by (rule order_trans [rotated]) simp
  with double_nonneg [OF assms] have "\<not> double x < - max_double"
    by simp
  then show ?thesis
    by (simp add: js_number_def Let_def)
qed

lemma js_number_nat:
  assumes "n \<le> 2 ^ 53"
  shows "js_number (of_nat n) = Num (of_nat n)"
proof -
  have "(of_nat n :: rat) \<le> of_nat (2 ^ 53)"
    using assms by (simp only: of_nat_le_iff)
  then have "(of_nat n :: rat) \<le> 2 ^ 53"
    by simp
  with max_double_large have "\<not> max_double < (of_nat n :: rat)"
    by simp
  moreover have "\<not> (of_nat n :: rat) < - max_double"
    using js_number_nonneg [of "of_nat n"] max_double_large by (simp add: not_less order_trans [rotated])
  ultimately show ?thesis
    by (simp add: js_number_def Let_def double_of_nat [OF assms])
qed

lemma js_number_numeral: "numeral w \<le> (2 ^ 53 :: nat) \<Longrightarrow> js_number (numeral w) = Num (numeral w)"
  using js_number_nat [of "numeral w"] by simp

lemma js_number_0: "js_number 0 = Num 0"
  using js_number_nat [of 0] by simp

lemma double_minus: "double (- x) = - double x"
  by (simp add: double_def Let_def)

lemma double_of_int:
  assumes "\<bar>k\<bar> \<le> 2 ^ 53"
  shows "double (of_int k) = of_int k"
proof (cases "0 \<le> k")
  case True
  then have "nat k \<le> 2 ^ 53"
    using assms by (simp add: nat_le_iff)
  then have "double (of_nat (nat k)) = of_nat (nat k)"
    by (rule double_of_nat)
  with True show ?thesis
    by simp
next
  case False
  then have "nat (- k) \<le> 2 ^ 53"
    using assms by (simp add: nat_le_iff)
  then have "double (of_nat (nat (- k))) = of_nat (nat (- k))"
    by (rule double_of_nat)
  moreover have "(of_int k :: rat) = - of_nat (nat (- k))"
    using False by simp
  ultimately show ?thesis
    by (simp only: double_minus)
qed

section \<open>Properties of the theme toggle\<close>

lemma js_light_neq_dark: "js ''light'' \<noteq> js ''dark''"
  by (simp add: js_def)

lemma js_light_nonempty: "js ''light'' \<noteq> []" and js_dark_nonempty: "js ''dark'' \<noteq> []"
  by (simp_all add: js_def)

lemma js_or_truthy: "s \<noteq> [] \<Longrightarrow> js_or (Some s) d = s"
  by (simp add: js_or_def truthy_def)

lemma js_or_falsy: "v = None \<or> v = Some [] \<Longrightarrow> js_or v d = d"
  by (auto simp: js_or_def truthy_def)

text \<open>
  C1. On a page that has the toggle and its icon, \<^verbatim>\<open>initTheme\<close> succeeds, and the
  displayed theme (the \<^verbatim>\<open>data-theme\<close> attribute, which is also \<^verbatim>\<open>currentTheme\<close>) is the
  persisted value of the key \<^verbatim>\<open>theme\<close> when there is one, otherwise \<^verbatim>\<open>dark\<close> when the system
  prefers dark, otherwise \<^verbatim>\<open>light\<close>. A persisted value is a non-empty string: the store's
  values are \<^verbatim>\<open>light\<close> and \<^verbatim>\<open>dark\<close>, and the script's own test \<^verbatim>\<open>savedTheme || ...\<close> takes an
  empty string for no value, as the last part records.
\<close>

theorem initTheme_resolution:
  assumes "themeToggle p" and "themeIcon p = Some icon"
  shows "\<exists>s. initTheme p = Inr s \<and> dataTheme s = Some (currentTheme s) \<and>
           localStorage s = pageStorage p \<and>
           (\<forall>v. pageStorage p (js ''theme'') = Some v \<and> v \<noteq> [] \<longrightarrow> dataTheme s = Some v) \<and>
           (pageStorage p (js ''theme'') = None \<and> prefersDark p \<longrightarrow>
              dataTheme s = Some (js ''dark'')) \<and>
           (pageStorage p (js ''theme'') = None \<and> \<not> prefersDark p \<longrightarrow>
              dataTheme s = Some (js ''light'')) \<and>
           (pageStorage p (js ''theme'') = Some [] \<longrightarrow>
              dataTheme s = Some (if prefersDark p then js ''dark'' else js ''light''))"
  using assms by (auto simp: initTheme_def Let_def js_or_truthy js_or_falsy)

theorem initTheme_resolution_witness:
  "(\<exists>s. initTheme \<lparr> pageStorage = Map.empty, prefersDark = True, themeToggle = True,
                     themeIcon = Some [] \<rparr> = Inr s \<and>
        dataTheme s = Some (js ''dark'')) \<and>
   (\<exists>s. initTheme \<lparr> pageStorage = [js ''theme'' \<mapsto> js ''light''], prefersDark = True,
                     themeToggle = True, themeIcon = Some [] \<rparr> = Inr s \<and>
        dataTheme s = Some (js ''light''))"
  using initTheme_resolution [of "\<lparr> pageStorage = Map.empty, prefersDark = True,
      themeToggle = True, themeIcon = Some [] \<rparr>" "[]"]
    initTheme_resolution [of "\<lparr> pageStorage = [js ''theme'' \<mapsto> js ''light''],
      prefersDark = True, themeToggle = True, themeIcon = Some [] \<rparr>" "[]"]
    js_light_nonempty
  by auto

text \<open>
  Two clicks, from a state whose current theme is \<^verbatim>\<open>light\<close> or \<^verbatim>\<open>dark\<close>, give the variable
  \<^verbatim>\<open>currentTheme\<close> its value back, display that value and store it, the second click
  writing it. So the attribute shows after the two clicks what it showed before them
  exactly when it showed the current theme, as it does after \<^verbatim>\<open>initTheme\<close> and after every
  click.
\<close>

lemma toggle_twice_in_sync:
  assumes "currentTheme s = js ''light'' \<or> currentTheme s = js ''dark''"
  shows "let s2 = theme_run s [Click, Click] in
           dataTheme s2 = Some (currentTheme s) \<and>
           currentTheme s2 = currentTheme s \<and>
           localStorage s2 (js ''theme'') = Some (currentTheme s) \<and>
           localStorage (theme_run s [Click]) (js ''theme'') \<noteq> Some (currentTheme s) \<and>
           (dataTheme s2 = dataTheme s \<longleftrightarrow> dataTheme s = Some (currentTheme s))"
  using assms js_light_neq_dark
  by (auto simp: theme_run_def on_click_def Let_def)

text \<open>
  C5. Clicking the toggle twice does not always return the displayed theme to the one the
  clicks started from. On a page with nothing persisted and a light system preference,
  \<^verbatim>\<open>initTheme\<close> displays \<^verbatim>\<open>light\<close>. A change of the system preference to dark then displays
  \<^verbatim>\<open>dark\<close> and leaves \<^verbatim>\<open>currentTheme\<close> at \<^verbatim>\<open>light\<close>: the change listener does not assign the
  variable, where the click listener does. The first click flips the variable to \<^verbatim>\<open>dark\<close>
  and displays \<^verbatim>\<open>dark\<close> again; the second displays and stores \<^verbatim>\<open>light\<close>. Over the two clicks
  the displayed theme went from \<^verbatim>\<open>dark\<close> to \<^verbatim>\<open>light\<close>, and the store holds \<^verbatim>\<open>light\<close>, which is
  not the theme they started from.
\<close>

theorem toggle_twice_after_system_change:
  "initTheme \<lparr> pageStorage = Map.empty, prefersDark = False, themeToggle = True,
               themeIcon = Some [] \<rparr> =
     Inr \<lparr> localStorage = Map.empty, dataTheme = Some (js ''light''),
           iconText = [0xD83C, 0xDF19], currentTheme = js ''light'' \<rparr> \<and>
   (let s0 = \<lparr> localStorage = Map.empty, dataTheme = Some (js ''light''),
               iconText = [0xD83C, 0xDF19], currentTheme = js ''light'' \<rparr>;
        s1 = theme_step s0 (SystemChange True);
        s2 = theme_step s1 Click;
        s3 = theme_step s2 Click
    in dataTheme s1 = Some (js ''dark'') \<and> currentTheme s1 = js ''light'' \<and>
       localStorage s1 (js ''theme'') = None \<and>
       dataTheme s2 = Some (js ''dark'') \<and>
       dataTheme s3 = Some (js ''light'') \<and>
       localStorage s3 (js ''theme'') = Some (js ''light'') \<and>
       s3 = theme_run s1 [Click, Click] \<and>
       dataTheme s3 \<noteq> dataTheme s1 \<and>
       localStorage s3 (js ''theme'') \<noteq> dataTheme s1)"
proof -
  have init: "initTheme \<lparr> pageStorage = Map.empty, prefersDark = False, themeToggle = True,
               themeIcon = Some [] \<rparr> =
     Inr \<lparr> localStorage = Map.empty, dataTheme = Some (js ''light''),
           iconText = [0xD83C, 0xDF19], currentTheme = js ''light'' \<rparr>"
    by (simp add: initTheme_def Let_def js_or_def truthy_def updateThemeIcon_def
        js_light_neq_dark)
  have run: "let s0 = \<lparr> localStorage = Map.empty, dataTheme = Some (js ''light''),
               iconText = [0xD83C, 0xDF19], currentTheme = js ''light'' \<rparr>;
        s1 = theme_step s0 (SystemChange True);
        s2 = theme_step s1 Click;
        s3 = theme_step s2 Click
    in dataTheme s1 = Some (js ''dark'') \<and> currentTheme s1 = js ''light'' \<and>
       localStorage s1 (js ''theme'') = None \<and>
       dataTheme s2 = Some (js ''dark'') \<and>
       dataTheme s3 = Some (js ''light'') \<and>
       localStorage s3 (js ''theme'') = Some (js ''light'') \<and>
       s3 = theme_run s1 [Click, Click] \<and>
       dataTheme s3 \<noteq> dataTheme s1 \<and>
       localStorage s3 (js ''theme'') \<noteq> dataTheme s1"
    using js_light_neq_dark
    by (simp add: Let_def on_change_def on_click_def theme_run_def truthy_def
        js_light_neq_dark [symmetric])
  from init run show ?thesis
    by (rule conjI)
qed

text \<open>A click persists a truthy value, and no listener ever removes or empties it.\<close>

lemma on_click_persists: "truthy (localStorage (on_click s) (js ''theme''))"
  by (simp add: on_click_def Let_def truthy_def js_light_nonempty js_dark_nonempty)

lemma theme_step_keeps_persisted:
  "truthy (localStorage s (js ''theme'')) \<Longrightarrow> truthy (localStorage (theme_step s e) (js ''theme''))"
  by (cases e) (simp_all add: on_click_persists on_change_def)

lemma theme_run_keeps_persisted:
  "truthy (localStorage s (js ''theme'')) \<Longrightarrow> truthy (localStorage (theme_run s es) (js ''theme''))"
  unfolding theme_run_def
  by (induction es arbitrary: s) (simp_all add: theme_step_keeps_persisted)

text \<open>
  C6. Take any state, let the user click the toggle, and let any sequence of clicks and
  system-preference changes follow. A system-preference change arriving then leaves the
  whole state as it is: the displayed theme, the icon, the stored preference. (The store
  is written by this script only.)
\<close>

theorem persisted_overrides_system:
  "theme_step (theme_run (theme_step s Click) es) (SystemChange m) =
     theme_run (theme_step s Click) es \<and>
   dataTheme (theme_run (theme_step s Click) (es @ [SystemChange m])) =
     dataTheme (theme_run (theme_step s Click) es) \<and>
   localStorage (theme_run (theme_step s Click) (es @ [SystemChange m])) =
     localStorage (theme_run (theme_step s Click) es)"
proof -
  have "truthy (localStorage (theme_run (theme_step s Click) es) (js ''theme''))"
    by (simp add: theme_run_keeps_persisted on_click_persists)
  then have "theme_step (theme_run (theme_step s Click) es) (SystemChange m) =
      theme_run (theme_step s Click) es"
    by (simp add: on_change_def)
  then show ?thesis
    by (simp add: theme_run_def)
qed

text \<open>
  C9. The \<^verbatim>\<open>change\<close> listener never assigns \<^verbatim>\<open>currentTheme\<close>, and with nothing persisted it
  sets the displayed theme to the system's new preference. So on a page with nothing
  persisted, after \<^verbatim>\<open>initTheme\<close> and one system-preference change, a click sets, displays
  and persists the opposite of the theme resolved by \<^verbatim>\<open>initTheme\<close>; when the change was to
  the other preference, that is the theme the change had already put on display, and the
  click leaves the displayed theme as it was.
\<close>

theorem change_listener_desync:
  "currentTheme (on_change m s) = currentTheme s \<and>
   (\<not> truthy (localStorage s (js ''theme'')) \<longrightarrow>
      dataTheme (on_change m s) = Some (if m then js ''dark'' else js ''light'')) \<and>
   (themeToggle p \<and> themeIcon p = Some icon \<and> pageStorage p (js ''theme'') = None \<longrightarrow>
      (\<exists>s0. initTheme p = Inr s0 \<and>
         (let opposite = (if currentTheme s0 = js ''light'' then js ''dark'' else js ''light'');
              s1 = theme_step s0 (SystemChange m);
              s2 = theme_step s1 Click
          in currentTheme s2 = opposite \<and> dataTheme s2 = Some opposite \<and>
             localStorage s2 (js ''theme'') = Some opposite \<and>
             (m \<noteq> prefersDark p \<longrightarrow> dataTheme s2 = dataTheme s1))))"
  using js_light_neq_dark
  by (auto simp: on_change_def on_click_def initTheme_def Let_def js_or_def truthy_def)

theorem change_listener_desync_witness:
  "\<exists>s0. initTheme \<lparr> pageStorage = Map.empty, prefersDark = False, themeToggle = True,
                     themeIcon = Some [] \<rparr> = Inr s0 \<and>
      dataTheme s0 = Some (js ''light'') \<and>
      dataTheme (theme_step s0 (SystemChange True)) = Some (js ''dark'') \<and>
      dataTheme (theme_step (theme_step s0 (SystemChange True)) Click) = Some (js ''dark'')"
  using change_listener_desync [of True _ "\<lparr> pageStorage = Map.empty, prefersDark = False,
    themeToggle = True, themeIcon = Some [] \<rparr>" "[]"] js_light_neq_dark
  by (auto simp: Let_def initTheme_def js_or_def truthy_def on_change_def)

section \<open>Properties of the active navigation link\<close>

lemma activateLinks_only_active: "activateLinks t links = only_active t links"
  by (simp add: activateLinks_def only_active_def Let_def)

lemma only_active_overwrites: "only_active t (only_active t' links) = only_active t links"
  by (simp add: only_active_def)

lemma sections_loop_clean:
  "foldl (\<lambda>links sec. if in_bounds pos sec then only_active (js ''#'' @ sectionId sec) links
                        else links) links secs =
     (if filter (in_bounds pos) secs = [] then links
      else only_active (js ''#'' @ sectionId (last (filter (in_bounds pos) secs))) links)"
  by (induction secs rule: rev_induct) (simp_all add: only_active_overwrites)

lemma long_sum:
  assumes "is_long a" and "is_long b"
  shows "double (of_int a + of_int b) = of_int a + of_int b"
proof -
  have "- (2 ^ 53) \<le> a + b \<and> a + b \<le> 2 ^ 53"
    using assms by (simp add: is_long_def)
  then have "\<bar>a + b\<bar> \<le> 2 ^ 53"
    by (simp only: abs_le_iff) simp
  then have "double (of_int (a + b)) = of_int (a + b)"
    by (rule double_of_int)
  then show ?thesis
    by simp
qed

lemma sections_loop:
  assumes "\<forall>sec \<in> set secs. is_long (offsetTop sec) \<and> is_long (offsetHeight sec)"
  shows "foldl (\<lambda>links sec.
            if pos \<ge> of_int (offsetTop sec) \<and>
               pos < double (of_int (offsetTop sec) + of_int (offsetHeight sec))
            then activateLinks (js ''#'' @ sectionId sec) links else links) links secs =
     (if filter (in_bounds pos) secs = [] then links
      else only_active (js ''#'' @ sectionId (last (filter (in_bounds pos) secs))) links)"
proof -
  have "foldl (\<lambda>links sec.
            if pos \<ge> of_int (offsetTop sec) \<and>
               pos < double (of_int (offsetTop sec) + of_int (offsetHeight sec))
            then activateLinks (js ''#'' @ sectionId sec) links else links) links secs =
        foldl (\<lambda>links sec. if in_bounds pos sec then only_active (js ''#'' @ sectionId sec) links
                        else links) links secs"
    using assms by (intro foldl_cong) (simp_all add: in_bounds_def long_sum activateLinks_only_active)
  then show ?thesis
    by (simp only: sections_loop_clean)
qed

lemma updateActiveNav_links:
  assumes "\<forall>sec \<in> set (sections st). is_long (offsetTop sec) \<and> is_long (offsetHeight sec)"
  shows "navLinks (updateActiveNav st) =
     (let matching = filter (in_bounds (double (scrollY st + 100))) (sections st)
      in if scrollY st < 100 then only_active (js ''#home'') (navLinks st)
         else if matching = [] then navLinks st
         else only_active (js ''#'' @ sectionId (last matching)) (navLinks st))"
  by (simp add: updateActiveNav_def Let_def sections_loop [OF assms] activateLinks_only_active
      only_active_overwrites)

lemma only_active_href: "map href (only_active t links) = map href links"
  by (simp add: only_active_def)

lemma only_active_iff: "link \<in> set (only_active t links) \<Longrightarrow> active link \<longleftrightarrow> href link = Some t"
  by (auto simp: only_active_def)

lemma on_scroll_links:
  assumes "\<forall>sec \<in> set (sections st). is_long (offsetTop sec) \<and> is_long (offsetHeight sec)"
  shows "navLinks (on_scroll y st) =
     (if y < 100 then only_active (js ''#home'') (navLinks st)
      else if filter (in_bounds (double (y + 100))) (sections st) = [] then navLinks st
      else only_active (js ''#'' @ sectionId (last (filter (in_bounds (double (y + 100))) (sections st))))
             (navLinks st))"
proof -
  have "\<forall>sec \<in> set (sections (st \<lparr> scrollY := y \<rparr>)).
          is_long (offsetTop sec) \<and> is_long (offsetHeight sec)"
    using assms by simp
  then show ?thesis
    unfolding on_scroll_def by (simp add: updateActiveNav_links Let_def)
qed

lemma scrollPosition_integer:
  assumes "\<bar>k\<bar> \<le> 2 ^ 52"
  shows "double (of_int k + 100) = of_int k + 100"
proof -
  have "\<bar>k + 100\<bar> \<le> 2 ^ 53"
    using assms by simp
  then have "double (of_int (k + 100)) = of_int (k + 100)"
    by (rule double_of_int)
  then show ?thesis
    by simp
qed

text \<open>
  C2. On a scroll event to offset \<open>y\<close>, and likewise on the initial update, the scroll
  position is \<open>y + 100\<close>, as a sum of doubles (it is \<open>y + 100\<close> itself when \<open>y\<close> is an integer,
  and the double nearest to it otherwise). Take the sections whose bounds
  \<open>[top, top + height)\<close> contain the scroll position, in iteration order. Below offset 100
  exactly the links to \<^verbatim>\<open>#home\<close> are active, whatever the sections' bounds. From offset 100
  on, when some section matches, exactly the links to the last matching section are
  active; when none matches, the links stay as they were.
\<close>

theorem active_nav_update:
  assumes "\<forall>sec \<in> set (sections st). is_long (offsetTop sec) \<and> is_long (offsetHeight sec)"
  shows "(let scrollPosition = double (y + 100);
        matching = filter (in_bounds scrollPosition) (sections st);
        links' = navLinks (on_scroll y st)
    in (y < 100 \<longrightarrow> links' = only_active (js ''#home'') (navLinks st)) \<and>
       (100 \<le> y \<and> matching \<noteq> [] \<longrightarrow>
          links' = only_active (js ''#'' @ sectionId (last matching)) (navLinks st)) \<and>
       (100 \<le> y \<and> matching = [] \<longrightarrow> links' = navLinks st)) \<and>
   (\<forall>k. \<bar>k\<bar> \<le> 2 ^ 52 \<longrightarrow> double (of_int k + 100) = of_int k + 100) \<and>
   initActiveNavHighlight st = on_scroll (scrollY st) st \<and>
   (\<forall>t links. map href (only_active t links) = map href links \<and>
      (\<forall>link \<in> set (only_active t links). active link \<longleftrightarrow> href link = Some t))"
proof -
  have "initActiveNavHighlight st = on_scroll (scrollY st) st"
    by (simp add: initActiveNavHighlight_def on_scroll_def)
  then show ?thesis
    by (simp add: on_scroll_links [OF assms] Let_def only_active_href only_active_iff
        scrollPosition_integer)
qed

theorem active_nav_update_witness:
  "map active (navLinks (on_scroll 580
      \<lparr> sections = [\<lparr> sectionId = js ''home'', offsetTop = 0, offsetHeight = 700 \<rparr>,
                     \<lparr> sectionId = js ''about'', offsetTop = 650, offsetHeight = 500 \<rparr>],
        navLinks = [\<lparr> href = Some (js ''#home''), active = True \<rparr>,
                    \<lparr> href = Some (js ''#about''), active = False \<rparr>],
        scrollY = 0 \<rparr>)) = [False, True] \<and>
   map active (navLinks (on_scroll 50
      \<lparr> sections = [\<lparr> sectionId = js ''home'', offsetTop = 200, offsetHeight = 700 \<rparr>,
                     \<lparr> sectionId = js ''about'', offsetTop = 100, offsetHeight = 100 \<rparr>],
        navLinks = [\<lparr> href = Some (js ''#home''), active = False \<rparr>,
                    \<lparr> href = Some (js ''#about''), active = False \<rparr>],
        scrollY = 0 \<rparr>)) = [True, False]"
proof -
  have neq: "js ''#home'' \<noteq> js ''#about''"
    by (simp add: js_def)
  have hash: "js ''#'' @ js ''about'' = js ''#about''"
    by (simp add: js_def)
  have pos: "double 680 = 680"
    by code_simp
  have long: "is_long 0" "is_long 100" "is_long 200" "is_long 500" "is_long 650" "is_long 700"
    by (simp_all add: is_long_def)
  have a: "navLinks (on_scroll 580
      \<lparr> sections = [\<lparr> sectionId = js ''home'', offsetTop = 0, offsetHeight = 700 \<rparr>,
                     \<lparr> sectionId = js ''about'', offsetTop = 650, offsetHeight = 500 \<rparr>],
        navLinks = [\<lparr> href = Some (js ''#home''), active = True \<rparr>,
                    \<lparr> href = Some (js ''#about''), active = False \<rparr>],
        scrollY = 0 \<rparr>) =
      only_active (js ''#about'') [\<lparr> href = Some (js ''#home''), active = True \<rparr>,
                    \<lparr> href = Some (js ''#about''), active = False \<rparr>]"
    using active_nav_update [of
      "\<lparr> sections = [\<lparr> sectionId = js ''home'', offsetTop = 0, offsetHeight = 700 \<rparr>,
                      \<lparr> sectionId = js ''about'', offsetTop = 650, offsetHeight = 500 \<rparr>],
         navLinks = [\<lparr> href = Some (js ''#home''), active = True \<rparr>,
                     \<lparr> href = Some (js ''#about''), active = False \<rparr>],
         scrollY = 0 \<rparr>" 580, THEN conjunct1]
    by (simp add: Let_def in_bounds_def hash pos long)
  have b: "navLinks (on_scroll 50
      \<lparr> sections = [\<lparr> sectionId = js ''home'', offsetTop = 200, offsetHeight = 700 \<rparr>,
                     \<lparr> sectionId = js ''about'', offsetTop = 100, offsetHeight = 100 \<rparr>],
        navLinks = [\<lparr> href = Some (js ''#home''), active = False \<rparr>,
                    \<lparr> href = Some (js ''#about''), active = False \<rparr>],
        scrollY = 0 \<rparr>) =
      only_active (js ''#home'') [\<lparr> href = Some (js ''#home''), active = False \<rparr>,
                    \<lparr> href = Some (js ''#about''), active = False \<rparr>]"
    using active_nav_update [of
      "\<lparr> sections = [\<lparr> sectionId = js ''home'', offsetTop = 200, offsetHeight = 700 \<rparr>,
                      \<lparr> sectionId = js ''about'', offsetTop = 100, offsetHeight = 100 \<rparr>],
         navLinks = [\<lparr> href = Some (js ''#home''), active = False \<rparr>,
                     \<lparr> href = Some (js ''#about''), active = False \<rparr>],
         scrollY = 0 \<rparr>" 50, THEN conjunct1]
    by (simp add: Let_def long)
  show ?thesis
    using neq by (simp only: a b) (simp add: only_active_def)
qed

section \<open>Properties of the contact form\<close>

lemma regex_test_Once:
  "regex_test (Once a # ps) s \<longleftrightarrow> (\<exists>c v. s = c # v \<and> atom_accepts a c \<and> regex_test ps v)"
  by (cases s) simp_all

lemma regex_test_OneOrMore:
  "regex_test (OneOrMore a # ps) s \<longleftrightarrow>
     (\<exists>u v. s = u @ v \<and> u \<noteq> [] \<and> list_all (atom_accepts a) u \<and> regex_test ps v)"
proof (induction s)
  case Nil
  show ?case by simp
next
  case (Cons c cs)
  show ?case
  proof
    assume "regex_test (OneOrMore a # ps) (c # cs)"
    then have c: "atom_accepts a c"
      and more: "regex_test (OneOrMore a # ps) cs \<or> regex_test ps cs"
      by simp_all
    from more show "\<exists>u v. c # cs = u @ v \<and> u \<noteq> [] \<and> list_all (atom_accepts a) u \<and> regex_test ps v"
    proof
      assume "regex_test (OneOrMore a # ps) cs"
      then obtain u v where "cs = u @ v" "list_all (atom_accepts a) u" "regex_test ps v"
        using Cons.IH by blast
      with c have "c # cs = (c # u) @ v \<and> c # u \<noteq> [] \<and> list_all (atom_accepts a) (c # u) \<and>
          regex_test ps v"
        by simp
      then show ?thesis by blast
    next
      assume "regex_test ps cs"
      with c have "c # cs = [c] @ cs \<and> [c] \<noteq> [] \<and> list_all (atom_accepts a) [c] \<and> regex_test ps cs"
        by simp
      then show ?thesis by blast
    qed
  next
    assume "\<exists>u v. c # cs = u @ v \<and> u \<noteq> [] \<and> list_all (atom_accepts a) u \<and> regex_test ps v"
    then obtain u v where uv: "c # cs = u @ v" "u \<noteq> []" "list_all (atom_accepts a) u"
      "regex_test ps v"
      by blast
    then obtain u' where u: "u = c # u'" "cs = u' @ v"
      by (cases u) auto
    show "regex_test (OneOrMore a # ps) (c # cs)"
    proof (cases "u' = []")
      case True
      with u uv show ?thesis by simp
    next
      case False
      with u uv have "regex_test (OneOrMore a # ps) cs"
        using Cons.IH by auto
      with u uv show ?thesis by simp
    qed
  qed
qed

lemma NoneOf_non_space_non_at:
  "atom_accepts (NoneOf [Space, Ch 0x40]) = non_space_non_at"
  by (simp add: fun_eq_iff non_space_non_at_def)

lemma isValidEmail_shape: "isValidEmail e = email_shape e"
  unfolding isValidEmail_def emailRegex_def email_shape_def
  by (simp add: regex_test_Once regex_test_OneOrMore NoneOf_non_space_non_at) blast

lemma validate_violations:
  "validate name email subject message =
     (violations name email subject message = [], violations name email subject message)"
  by (simp add: validate_def violations_def isValidEmail_shape Let_def)


lemma on_submit_outcome:
  assumes "nameField p = Some n" and "emailField p = Some e"
    and "subjectField p = Some sj" and "messageField p = Some m"
  shows "on_submit p =
     Inr (let violated = violations (trim (fieldValue n)) (trim (fieldValue e))
                           (trim (fieldValue sj)) (trim (fieldValue m))
          in if violated = []
             then form_reset (showFormMessage
                    (js ''Thank you for your message! I'll get back to you soon.'')
                    (js ''success'') p)
             else showFormMessage (array_join (js ''<br>'') violated) (js ''error'') p)"
  using assms by (simp add: on_submit_def validate_violations Let_def)

lemma success_neq_error: "js ''error'' \<noteq> js ''success''"
  by (simp add: js_def)

lemma not_shape_a_at_b: "\<not> email_shape (js ''a@b'')"
  unfolding isValidEmail_shape [symmetric] by code_simp

text \<open>
  C3. On a page that has the four fields, a submission is handled without error. Take
  the four values trimmed, and the messages of the violated rules in the order name,
  email, subject, message (\<open>violations\<close>: each rule is judged on its own field, none
  hides another). When at least one rule is violated, the message element put on the
  page is an error element whose content is exactly these messages, joined by
  \<^verbatim>\<open><br>\<close>. When all four trimmed values are empty these are the four ``required''
  messages in that order; when the email is \<^verbatim>\<open>a@b\<close> and the other three fields satisfy
  their rules, it is the one message about the email address.
\<close>

theorem validation_messages:
  assumes "nameField p = Some n" and "emailField p = Some e"
    and "subjectField p = Some sj" and "messageField p = Some m"
  shows "\<exists>p'. on_submit p = Inr p' \<and>
     (let name = trim (fieldValue n); email = trim (fieldValue e);
          subject = trim (fieldValue sj); message = trim (fieldValue m);
          violated = violations name email subject message
      in (violated \<noteq> [] \<longrightarrow>
            formMessages p' = tl (formMessages p) @
              [\<lparr> className = js ''form-message '' @ js ''error'',
                 innerHTML = array_join (js ''<br>'') violated,
                 successStyle = False \<rparr>]) \<and>
         (name = [] \<and> email = [] \<and> subject = [] \<and> message = [] \<longrightarrow>
            violated = [js ''Name is required'', js ''Email is required'',
                        js ''Subject is required'', js ''Message is required'']) \<and>
         (name \<noteq> [] \<and> email = js ''a@b'' \<and> subject \<noteq> [] \<and> 10 \<le> length message \<longrightarrow>
            violated = [js ''Please enter a valid email address'']))"
proof -
  have a: "js ''a@b'' \<noteq> []"
    by (simp add: js_def)
  show ?thesis
    unfolding on_submit_outcome [OF assms]
    using a not_shape_a_at_b success_neq_error
    by (auto simp: Let_def showFormMessage_def violations_def split: list.splits)
qed

text \<open>
  C4. On a page that has the four fields, a submission is accepted (the script's
  \<^verbatim>\<open>isValid\<close>) exactly when no rule is violated. When it is accepted, the message element
  put on the page is the success element with the fixed text, and \<^verbatim>\<open>reset()\<close> gives every
  field its default value: on a form whose markup gives the fields no default value, all
  four are empty. When it is rejected, the element is the error element with the joined
  messages, and the four fields are what they were, untrimmed.
\<close>

theorem submission_outcome:
  assumes "nameField p = Some n" and "emailField p = Some e"
    and "subjectField p = Some sj" and "messageField p = Some m"
  shows "\<exists>p'. on_submit p = Inr p' \<and>
     (let name = trim (fieldValue n); email = trim (fieldValue e);
          subject = trim (fieldValue sj); message = trim (fieldValue m);
          violated = violations name email subject message;
          accepted = fst (validate name email subject message)
      in (accepted \<longleftrightarrow> violated = []) \<and>
         (accepted \<longrightarrow>
            formMessages p' = tl (formMessages p) @
              [\<lparr> className = js ''form-message '' @ js ''success'',
                 innerHTML = js ''Thank you for your message! I'll get back to you soon.'',
                 successStyle = True \<rparr>] \<and>
            nameField p' = Some (n \<lparr> fieldValue := defaultValue n \<rparr>) \<and>
            emailField p' = Some (e \<lparr> fieldValue := defaultValue e \<rparr>) \<and>
            subjectField p' = Some (sj \<lparr> fieldValue := defaultValue sj \<rparr>) \<and>
            messageField p' = Some (m \<lparr> fieldValue := defaultValue m \<rparr>) \<and>
            (defaultValue n = [] \<and> defaultValue e = [] \<and> defaultValue sj = [] \<and>
             defaultValue m = [] \<longrightarrow>
               nameField p' = Some (n \<lparr> fieldValue := [] \<rparr>) \<and>
               emailField p' = Some (e \<lparr> fieldValue := [] \<rparr>) \<and>
               subjectField p' = Some (sj \<lparr> fieldValue := [] \<rparr>) \<and>
               messageField p' = Some (m \<lparr> fieldValue := [] \<rparr>))) \<and>
         (\<not> accepted \<longrightarrow>
            formMessages p' = tl (formMessages p) @
              [\<lparr> className = js ''form-message '' @ js ''error'',
                 innerHTML = array_join (js ''<br>'') violated,
                 successStyle = False \<rparr>] \<and>
            nameField p' = nameField p \<and> emailField p' = emailField p \<and>
            subjectField p' = subjectField p \<and> messageField p' = messageField p))"
  unfolding on_submit_outcome [OF assms]
  using assms success_neq_error
  by (auto simp: Let_def showFormMessage_def form_reset_def validate_violations
      split: list.splits)


lemma form_with_fields:
  "nameField (form_with a b c d) = Some \<lparr> fieldValue = a, defaultValue = [] \<rparr>"
  "emailField (form_with a b c d) = Some \<lparr> fieldValue = b, defaultValue = [] \<rparr>"
  "subjectField (form_with a b c d) = Some \<lparr> fieldValue = c, defaultValue = [] \<rparr>"
  "messageField (form_with a b c d) = Some \<lparr> fieldValue = d, defaultValue = [] \<rparr>"
  "formMessages (form_with a b c d) = []"
  by (simp_all add: form_with_def)

theorem validation_messages_witness:
  "(\<exists>p'. on_submit (form_with (js '' '') [] [] []) = Inr p' \<and>
      formMessages p' =
        [\<lparr> className = js ''form-message '' @ js ''error'',
           innerHTML = js ''Name is required<br>Email is required<br>Subject is required<br>Message is required'',
           successStyle = False \<rparr>]) \<and>
   (\<exists>p'. on_submit (form_with (js ''Ann'') (js '' a@b'') (js ''Hi'') (js ''0123456789'')) = Inr p' \<and>
      formMessages p' =
        [\<lparr> className = js ''form-message '' @ js ''error'',
           innerHTML = js ''Please enter a valid email address'',
           successStyle = False \<rparr>])"
proof -
  have t: "trim (js '' '') = []" "trim [] = []" "trim (js ''Ann'') = js ''Ann''"
    "trim (js '' a@b'') = js ''a@b''" "trim (js ''Hi'') = js ''Hi''"
    "trim (js ''0123456789'') = js ''0123456789''"
    by code_simp+
  have j: "js ''Name is required'' @ js ''<br>'' @ js ''Email is required'' @ js ''<br>'' @
        js ''Subject is required'' @ js ''<br>'' @ js ''Message is required'' =
      js ''Name is required<br>Email is required<br>Subject is required<br>Message is required''"
    by (simp add: js_def)
  have c: "validate [] [] [] [] = (False, [js ''Name is required'', js ''Email is required'',
        js ''Subject is required'', js ''Message is required''])"
    "validate (js ''Ann'') (js ''a@b'') (js ''Hi'') (js ''0123456789'') =
       (False, [js ''Please enter a valid email address''])"
    by code_simp+
  have v: "violations [] [] [] [] = [js ''Name is required'', js ''Email is required'',
        js ''Subject is required'', js ''Message is required'']"
    "violations (js ''Ann'') (js ''a@b'') (js ''Hi'') (js ''0123456789'') =
       [js ''Please enter a valid email address'']"
    using c by (simp_all add: validate_violations)
  have a: "\<exists>p'. on_submit (form_with (js '' '') [] [] []) = Inr p' \<and>
      formMessages p' =
        [\<lparr> className = js ''form-message '' @ js ''error'',
           innerHTML = js ''Name is required<br>Email is required<br>Subject is required<br>Message is required'',
           successStyle = False \<rparr>]"
    using validation_messages [OF form_with_fields(1-4), of "js '' ''" "[]" "[]" "[]"]
    by (simp add: Let_def t v form_with_fields j)
  have b: "\<exists>p'. on_submit (form_with (js ''Ann'') (js '' a@b'') (js ''Hi'') (js ''0123456789'')) = Inr p' \<and>
      formMessages p' =
        [\<lparr> className = js ''form-message '' @ js ''error'',
           innerHTML = js ''Please enter a valid email address'',
           successStyle = False \<rparr>]"
    using validation_messages [OF form_with_fields(1-4),
        of "js ''Ann''" "js '' a@b''" "js ''Hi''" "js ''0123456789''"]
    by (simp add: Let_def t v form_with_fields)
  from a b show ?thesis
    by (rule conjI)
qed


theorem submission_outcome_witness:
  "(\<exists>p'. on_submit (form_with (js ''Ann'') (js ''ann@x.io'') (js ''Hi'') (js ''0123456789'')) = Inr p' \<and>
      formMessages p' =
        [\<lparr> className = js ''form-message '' @ js ''success'',
           innerHTML = js ''Thank you for your message! I'll get back to you soon.'',
           successStyle = True \<rparr>] \<and>
      nameField p' = Some \<lparr> fieldValue = [], defaultValue = [] \<rparr> \<and>
      emailField p' = Some \<lparr> fieldValue = [], defaultValue = [] \<rparr> \<and>
      subjectField p' = Some \<lparr> fieldValue = [], defaultValue = [] \<rparr> \<and>
      messageField p' = Some \<lparr> fieldValue = [], defaultValue = [] \<rparr>) \<and>
   (\<exists>p'. on_submit (form_with (js ''Ann'') (js ''ann@x.io'') (js ''Hi'') (js ''012345678'')) = Inr p' \<and>
      formMessages p' =
        [\<lparr> className = js ''form-message '' @ js ''error'',
           innerHTML = js ''Message must be at least 10 characters long'',
           successStyle = False \<rparr>] \<and>
      nameField p' = Some \<lparr> fieldValue = js ''Ann'', defaultValue = [] \<rparr> \<and>
      emailField p' = Some \<lparr> fieldValue = js ''ann@x.io'', defaultValue = [] \<rparr> \<and>
      subjectField p' = Some \<lparr> fieldValue = js ''Hi'', defaultValue = [] \<rparr> \<and>
      messageField p' = Some \<lparr> fieldValue = js ''012345678'', defaultValue = [] \<rparr>)"
proof -
  have t: "trim (js ''Ann'') = js ''Ann''" "trim (js ''ann@x.io'') = js ''ann@x.io''"
    "trim (js ''Hi'') = js ''Hi''" "trim (js ''0123456789'') = js ''0123456789''"
    "trim (js ''012345678'') = js ''012345678''"
    by code_simp+
  have c: "validate (js ''Ann'') (js ''ann@x.io'') (js ''Hi'') (js ''0123456789'') = (True, [])"
    "validate (js ''Ann'') (js ''ann@x.io'') (js ''Hi'') (js ''012345678'') =
       (False, [js ''Message must be at least 10 characters long''])"
    by code_simp+
  have v: "violations (js ''Ann'') (js ''ann@x.io'') (js ''Hi'') (js ''0123456789'') = []"
    "violations (js ''Ann'') (js ''ann@x.io'') (js ''Hi'') (js ''012345678'') =
       [js ''Message must be at least 10 characters long'']"
    using c by (simp_all add: validate_violations)
  have a: "\<exists>p'. on_submit (form_with (js ''Ann'') (js ''ann@x.io'') (js ''Hi'') (js ''0123456789'')) = Inr p' \<and>
      formMessages p' =
        [\<lparr> className = js ''form-message '' @ js ''success'',
           innerHTML = js ''Thank you for your message! I'll get back to you soon.'',
           successStyle = True \<rparr>] \<and>
      nameField p' = Some \<lparr> fieldValue = [], defaultValue = [] \<rparr> \<and>
      emailField p' = Some \<lparr> fieldValue = [], defaultValue = [] \<rparr> \<and>
      subjectField p' = Some \<lparr> fieldValue = [], defaultValue = [] \<rparr> \<and>
      messageField p' = Some \<lparr> fieldValue = [], defaultValue = [] \<rparr>"
    using submission_outcome [OF form_with_fields(1-4),
        of "js ''Ann''" "js ''ann@x.io''" "js ''Hi''" "js ''0123456789''"]
    by (simp add: Let_def t c v form_with_fields; blast)
  have b: "\<exists>p'. on_submit (form_with (js ''Ann'') (js ''ann@x.io'') (js ''Hi'') (js ''012345678'')) = Inr p' \<and>
      formMessages p' =
        [\<lparr> className = js ''form-message '' @ js ''error'',
           innerHTML = js ''Message must be at least 10 characters long'',
           successStyle = False \<rparr>] \<and>
      nameField p' = Some \<lparr> fieldValue = js ''Ann'', defaultValue = [] \<rparr> \<and>
      emailField p' = Some \<lparr> fieldValue = js ''ann@x.io'', defaultValue = [] \<rparr> \<and>
      subjectField p' = Some \<lparr> fieldValue = js ''Hi'', defaultValue = [] \<rparr> \<and>
      messageField p' = Some \<lparr> fieldValue = js ''012345678'', defaultValue = [] \<rparr>"
    using submission_outcome [OF form_with_fields(1-4),
        of "js ''Ann''" "js ''ann@x.io''" "js ''Hi''" "js ''012345678''"]
    by (simp add: Let_def t c v form_with_fields)
  from a b show ?thesis
    by (rule conjI)
qed

section \<open>Properties of the counter animation\<close>

lemma double_0: "double 0 = 0"
  by (simp add: double_def)

lemma digits_only: "takeWhile is_digit (filter is_digit t) = filter is_digit t"
  by (simp add: takeWhile_eq_all_conv)

lemma no_digit_filter: "filter is_digit t = [] \<longleftrightarrow> \<not> list_ex is_digit t"
  by (simp add: filter_empty_conv list_ex_iff)

lemma stepTime_40: "js_divide (Num 2000) (Num 50) = Num 40"
  by (simp add: js_number_numeral)

lemma animateCounter_digits:
  assumes "list_ex is_digit t"
  shows "animateCounter t =
     \<lparr> target = js_number (of_nat (decimal (filter is_digit t))),
       suffix = filter (\<lambda>c. \<not> is_digit c) t,
       current = Num 0,
       increment = js_divide (js_number (of_nat (decimal (filter is_digit t)))) (Num 50),
       stepTime = Num 40, textContent = t, cleared = False \<rparr>"
  using assms
  by (simp add: animateCounter_def parseInt_def digits_only no_digit_filter Let_def
      js_number_numeral)

lemma animateCounter_no_digits:
  assumes "\<not> list_ex is_digit t"
  shows "animateCounter t =
     \<lparr> target = NaN, suffix = t, current = Num 0, increment = NaN,
       stepTime = Num 40, textContent = t, cleared = False \<rparr>"
proof -
  have "filter (\<lambda>c. \<not> is_digit c) t = t"
    using assms by (simp add: list_ex_iff)
  with assms show ?thesis
    by (simp add: animateCounter_def parseInt_def no_digit_filter digits_only Let_def
        js_number_numeral)
qed


lemma toString_nat: "number_toString (Num (of_nat n)) = show_nat n"
  by simp

lemma floor_nat: "Math_floor (Num (of_nat n)) = Num (of_nat n)"
  by simp

lemma ticks_Suc: "ticks (Suc k) c = tick (ticks k c)"
  by (simp add: ticks_def)

lemma ticks_0: "ticks 0 c = c"
  by (simp add: ticks_def)

lemma ticks_add: "ticks (j + k) c = ticks j (ticks k c)"
  by (simp add: ticks_def funpow_add)

lemma tick_cleared: "cleared c \<Longrightarrow> ticks k c = c"
  by (induction k) (simp_all add: ticks_0 ticks_Suc tick_def)

lemma tick_below:
  assumes "\<not> cleared c" and "js_add (current c) (increment c) = Num s"
    and "target c = Num g" and "\<not> g \<le> s"
  shows "tick c = c \<lparr> current := Num s,
                       textContent := number_toString (Math_floor (Num s)) @ suffix c \<rparr>"
  using assms by (simp add: tick_def Let_def)

lemma tick_reached:
  assumes "\<not> cleared c" and "js_add (current c) (increment c) = Num s"
    and "target c = Num g" and "g \<le> s"
  shows "tick c = c \<lparr> current := Num s,
                       textContent := number_toString (target c) @ suffix c,
                       cleared := True \<rparr>"
  using assms by (simp add: tick_def Let_def)

text \<open>What a tick leaves alone, and the shape of every tick of a timer that is still running.\<close>

lemma tick_keeps:
  "target (tick c) = target c" "suffix (tick c) = suffix c" "increment (tick c) = increment c"
  "stepTime (tick c) = stepTime c"
  by (simp_all add: tick_def Let_def)

lemma ticks_keeps:
  "target (ticks k c) = target c" "suffix (ticks k c) = suffix c"
  "increment (ticks k c) = increment c" "stepTime (ticks k c) = stepTime c"
  by (induction k) (simp_all add: ticks_0 ticks_Suc tick_keeps)

lemma ticks_step:
  assumes "\<not> cleared (ticks k c)"
  shows "current (ticks (Suc k) c) = js_add (current (ticks k c)) (increment c) \<and>
     (if js_ge (current (ticks (Suc k) c)) (target c)
      then cleared (ticks (Suc k) c) \<and>
           textContent (ticks (Suc k) c) = number_toString (target c) @ suffix c
      else \<not> cleared (ticks (Suc k) c) \<and>
           textContent (ticks (Suc k) c) =
             number_toString (Math_floor (current (ticks (Suc k) c))) @ suffix c)"
  using assms ticks_keeps [of k c]
  by (simp add: ticks_Suc tick_def Let_def)

lemma cleared_stays: "cleared (ticks k c) \<Longrightarrow> cleared (ticks (Suc k) c)"
  by (simp add: ticks_Suc tick_def)

text \<open>Targets that are multiples of 50, up to \<open>2^53\<close>: every value is an integer in the exact range.\<close>

lemma running_fields:
  "\<not> cleared (running t k)"
  "current (running t k) = Num (of_nat (k * (decimal (filter is_digit t) div 50)))"
  "increment (running t k) = Num (of_nat (decimal (filter is_digit t) div 50))"
  "target (running t k) = Num (of_nat (decimal (filter is_digit t)))"
  "suffix (running t k) = filter (\<lambda>c. \<not> is_digit c) t"
  by (simp_all add: running_def Let_def)

lemma animateCounter_exact:
  assumes "list_ex is_digit t" and "50 dvd decimal (filter is_digit t)"
    and "decimal (filter is_digit t) \<le> 2 ^ 53"
  shows "animateCounter t = running t 0"
proof -
  let ?n = "decimal (filter is_digit t)"
  have n: "js_number (of_nat ?n) = Num (of_nat ?n)"
    using assms(3) by (rule js_number_nat)
  have "(of_nat ?n :: rat) / 50 = of_nat (?n div 50)"
    using assms(2) by (auto simp: dvd_def)
  moreover have "js_number (of_nat (?n div 50)) = Num (of_nat (?n div 50))"
    using assms(3) by (intro js_number_nat) simp
  ultimately have "js_divide (Num (of_nat ?n)) (Num 50) = Num (of_nat (?n div 50))"
    by simp
  then show ?thesis
    by (simp only: animateCounter_digits [OF assms(1)] running_def Let_def n) simp
qed

lemma tick_running:
  assumes "0 < decimal (filter is_digit t)" and "50 dvd decimal (filter is_digit t)"
    and "decimal (filter is_digit t) \<le> 2 ^ 53" and "Suc k < 50"
  shows "tick (running t k) = running t (Suc k)"
proof -
  let ?n = "decimal (filter is_digit t)"
  let ?m = "?n div 50"
  let ?s = "filter (\<lambda>c. \<not> is_digit c) t"
  have n: "?n = 50 * ?m" and m: "0 < ?m"
    using assms(1,2) by (auto simp: dvd_def)
  have small: "Suc k * ?m \<le> 2 ^ 53"
  proof -
    have "Suc k * ?m \<le> 50 * ?m"
      using assms(4) by simp
    with n assms(3) show ?thesis
      by simp
  qed
  have "js_number (of_nat (k * ?m) + of_nat ?m) = Num (of_nat (Suc k * ?m))"
    using js_number_nat [OF small] by (simp add: algebra_simps)
  then have sum: "js_add (current (running t k)) (increment (running t k)) =
      Num (of_nat (Suc k * ?m))"
    unfolding running_fields(2,3) js_add.simps(1) .
  have "Suc k * ?m < 50 * ?m"
    using assms(4) m by simp
  then have "Suc k * ?m < ?n"
    using n by simp
  then have "(of_nat (Suc k * ?m) :: rat) < of_nat ?n"
    by (simp only: of_nat_less_iff)
  then have below: "\<not> (of_nat ?n :: rat) \<le> of_nat (Suc k * ?m)"
    by simp
  have "tick (running t k) =
      (running t k) \<lparr> current := Num (of_nat (Suc k * ?m)),
        textContent := number_toString (Math_floor (Num (of_nat (Suc k * ?m))))
                       @ suffix (running t k) \<rparr>"
    using running_fields(1) sum running_fields(4) below by (rule tick_below)
  also have "\<dots> = (running t k) \<lparr> current := Num (of_nat (Suc k * ?m)),
        textContent := show_nat (Suc k * ?m) @ ?s \<rparr>"
    by (simp only: floor_nat toString_nat running_fields(5))
  also have "\<dots> = running t (Suc k)"
    by (simp add: running_def Let_def)
  finally show ?thesis .
qed

lemma ticks_running:
  assumes "list_ex is_digit t" and "0 < decimal (filter is_digit t)"
    and "50 dvd decimal (filter is_digit t)" and "decimal (filter is_digit t) \<le> 2 ^ 53"
    and "k < 50"
  shows "ticks k (animateCounter t) = running t k"
  using assms(5)
proof (induction k)
  case 0
  show ?case
    by (simp add: ticks_0 animateCounter_exact [OF assms(1,3,4)])
next
  case (Suc k)
  then show ?case
    by (simp add: ticks_Suc tick_running [OF assms(2,3,4)])
qed

lemma tick_final:
  assumes "0 < decimal (filter is_digit t)" and "50 dvd decimal (filter is_digit t)"
    and "decimal (filter is_digit t) \<le> 2 ^ 53"
  shows "tick (running t 49) =
     (running t 49) \<lparr> current := Num (of_nat (decimal (filter is_digit t))),
                      textContent := show_nat (decimal (filter is_digit t)) @
                                     filter (\<lambda>c. \<not> is_digit c) t,
                      cleared := True \<rparr>"
proof -
  let ?n = "decimal (filter is_digit t)"
  let ?m = "?n div 50"
  have n: "49 * ?m + ?m = ?n"
    using assms(2) by (auto simp: dvd_def)
  have "(of_nat (49 * ?m) :: rat) + of_nat ?m = of_nat (49 * ?m + ?m)"
    by simp
  also have "\<dots> = of_nat ?n"
    by (simp only: n)
  finally have e: "(of_nat (49 * ?m) :: rat) + of_nat ?m = of_nat ?n" .
  have "js_number (of_nat (49 * ?m) + of_nat ?m) = Num (of_nat ?n)"
    using js_number_nat [OF assms(3)] by (simp only: e)
  then have sum: "js_add (current (running t 49)) (increment (running t 49)) = Num (of_nat ?n)"
    unfolding running_fields(2,3) js_add.simps(1) .
  have reach: "(of_nat ?n :: rat) \<le> of_nat ?n"
    by (rule order_refl)
  have "tick (running t 49) =
      (running t 49) \<lparr> current := Num (of_nat ?n),
        textContent := number_toString (target (running t 49)) @ suffix (running t 49),
        cleared := True \<rparr>"
    using running_fields(1) sum running_fields(4) reach by (rule tick_reached)
  then show ?thesis
    by (simp only: running_fields toString_nat)
qed

lemma ticks_final:
  assumes "list_ex is_digit t" and "0 < decimal (filter is_digit t)"
    and "50 dvd decimal (filter is_digit t)" and "decimal (filter is_digit t) \<le> 2 ^ 53"
  shows "ticks 50 (animateCounter t) =
     (running t 49) \<lparr> current := Num (of_nat (decimal (filter is_digit t))),
                      textContent := show_nat (decimal (filter is_digit t)) @
                                     filter (\<lambda>c. \<not> is_digit c) t,
                      cleared := True \<rparr>"
proof -
  have "ticks 50 (animateCounter t) = tick (ticks 49 (animateCounter t))"
    using ticks_Suc [of 49] by simp
  then show ?thesis
    using assms by (simp only: ticks_running tick_final)
qed

lemma ticks_zero_target:
  assumes "list_ex is_digit t" and "decimal (filter is_digit t) = 0"
  shows "ticks 1 (animateCounter t) =
     (animateCounter t) \<lparr> textContent := show_nat 0 @ filter (\<lambda>c. \<not> is_digit c) t,
                           cleared := True \<rparr>"
proof -
  have "ticks 1 (animateCounter t) = tick (animateCounter t)"
    using ticks_Suc [of 0] by (simp add: ticks_0)
  then show ?thesis
    using assms(2)
    by (simp add: animateCounter_digits [OF assms(1)] tick_def Let_def js_number_0)
qed

lemma ticks_NaN:
  assumes "\<not> list_ex is_digit t"
  shows "ticks (Suc k) (animateCounter t) =
     (animateCounter t) \<lparr> current := NaN, textContent := js ''NaN'' @ t \<rparr>"
proof (induction k)
  case 0
  show ?case
    by (simp add: ticks_Suc ticks_0 animateCounter_no_digits [OF assms] tick_def)
next
  case (Suc k)
  show ?case
    unfolding ticks_Suc [of "Suc k"] Suc.IH
    by (simp add: animateCounter_no_digits [OF assms] tick_def)
qed

lemma never_cleared:
  assumes "\<not> list_ex is_digit t"
  shows "\<not> cleared (ticks k (animateCounter t))"
proof (cases k)
  case 0
  then show ?thesis
    by (simp add: ticks_0 animateCounter_no_digits [OF assms])
next
  case (Suc j)
  show ?thesis
    unfolding Suc ticks_NaN [OF assms]
    by (simp add: animateCounter_no_digits [OF assms])
qed


text \<open>
  Any positive target. Unless the first tick clears the timer, the target and the
  increment are finite, and the increment is the rounded fiftieth of the target. Then each
  tick of the running timer raises the accumulated value by at least a hundredth of the
  target, whatever the rounding does, so the timer is cleared within 100 ticks.
\<close>

lemma double_lower_weak:
  assumes "1 / 1000 \<le> x"
  shows "999 / 1000 * x \<le> double x"
proof -
  have "(1 :: rat) / 2 ^ 1022 \<le> 1 / 1000"
    by simp
  with assms have normal: "1 / 2 ^ 1022 \<le> x"
    by (rule order_trans [rotated])
  have "999 / 1000 * x \<le> (1 - 1 / 2 ^ 53) * x"
    using assms by (intro mult_right_mono) simp_all
  with double_lower [OF normal] show ?thesis
    by linarith
qed

lemma cleared_later:
  assumes "cleared (ticks j c)"
  shows "cleared (ticks (j + k) c)"
proof -
  have "ticks (j + k) c = ticks k (ticks j c)"
    using ticks_add [of k j c] by (simp only: add.commute)
  with assms show ?thesis
    by (simp add: tick_cleared)
qed

lemma finite_counter:
  assumes "list_ex is_digit t" and "0 < decimal (filter is_digit t)"
    and "\<not> cleared (ticks 1 (animateCounter t))"
  shows "\<exists>g i. target (animateCounter t) = Num g \<and> increment (animateCounter t) = Num i \<and>
           999 / 1000 \<le> g \<and> 999 / 1000 * (g / 50) \<le> i"
proof -
  let ?c = "animateCounter t"
  let ?n = "decimal (filter is_digit t)"
  have start: "\<not> cleared (ticks 0 ?c)" "current (ticks 0 ?c) = Num 0"
    by (simp_all add: ticks_0 animateCounter_digits [OF assms(1)])
  have first: "\<not> js_ge (js_add (Num 0) (increment ?c)) (target ?c)"
    using ticks_step [OF start(1)] assms(3) start(2) by (auto split: if_splits)
  have n1: "(1 :: rat) \<le> of_nat ?n"
    using assms(2) by simp
  have tgt: "target ?c = js_number (of_nat ?n)"
    and inc: "increment ?c = js_divide (target ?c) (Num 50)"
    by (simp_all add: animateCounter_digits [OF assms(1)])
  from js_number_nonneg [of "of_nat ?n"]
  consider "target ?c = PInf" | "target ?c = Num (double (of_nat ?n))"
    unfolding tgt by auto
  then show ?thesis
  proof cases
    case 1
    with first inc show ?thesis
      by simp
  next
    case 2
    define g where "g = double (of_nat ?n)"
    have "999 / 1000 * of_nat ?n \<le> g"
      unfolding g_def using n1 by (intro double_lower_weak) simp
    with n1 have g: "999 / 1000 \<le> g"
      by linarith
    have i: "increment ?c = js_number (g / 50)"
      unfolding inc 2 g_def by simp
    from g have "0 \<le> g / 50"
      by simp
    from js_number_nonneg [OF this]
    consider "increment ?c = PInf" | "increment ?c = Num (double (g / 50))"
      unfolding i by auto
    then show ?thesis
    proof cases
      case 1
      with first 2 show ?thesis
        by simp
    next
      case 2
      have "1 / 1000 \<le> g / 50"
        using g by simp
      then have "999 / 1000 * (g / 50) \<le> double (g / 50)"
        by (rule double_lower_weak)
      with 2 g \<open>target ?c = Num (double (of_nat ?n))\<close> show ?thesis
        unfolding g_def by blast
    qed
  qed
qed

lemma progress:
  assumes "target c = Num g" and "increment c = Num i" and "current c = Num 0"
    and "999 / 1000 \<le> g" and "999 / 1000 * (g / 50) \<le> i"
    and "\<not> cleared (ticks k c)"
  shows "\<exists>a. current (ticks k c) = Num a \<and> of_nat k * (g / 100) \<le> a \<and> a < g"
  using assms(6)
proof (induction k)
  case 0
  show ?case
    using assms(3,4) by (simp add: ticks_0)
next
  case (Suc k)
  have pos: "0 < g"
    using assms(4) by simp
  have running: "\<not> cleared (ticks k c)"
    using Suc.prems cleared_stays [of k c] by blast
  from Suc.IH [OF running] obtain a where
    a: "current (ticks k c) = Num a" and low: "of_nat k * (g / 100) \<le> a" and high: "a < g"
    by blast
  have a0: "0 \<le> a"
  proof -
    have "0 \<le> of_nat k * (g / 100)"
      using pos by simp
    with low show ?thesis
      by linarith
  qed
  have i_big: "1 / 1000 \<le> i"
    using assms(4,5) by simp
  have sum: "current (ticks (Suc k) c) = js_number (a + i)"
    using ticks_step [OF running] a assms(2) by simp
  have not_reached: "\<not> js_ge (current (ticks (Suc k) c)) (Num g)"
    using ticks_step [OF running] Suc.prems assms(1) by (auto split: if_splits)
  have "0 \<le> a + i"
    using a0 i_big by simp
  from js_number_nonneg [OF this] not_reached
  have step: "current (ticks (Suc k) c) = Num (double (a + i))"
    unfolding sum by auto
  with not_reached have below: "double (a + i) < g"
    by simp
  have "1 / 1000 \<le> a + i"
    using a0 i_big by simp
  then have next_low: "999 / 1000 * (a + i) \<le> double (a + i)"
    by (rule double_lower_weak)
  have gain: "a + g / 100 \<le> double (a + i)"
  proof -
    from assms(5) have "999 * 999 * g \<le> 999 * 50000 * i"
      by simp
    moreover from next_low
    have "50000 * (999 * a) + 999 * 50000 * i \<le> 50000 * 1000 * double (a + i)"
      by simp
    ultimately have "50000 * (999 * a) + 999 * 999 * g \<le> 50000 * 1000 * double (a + i)"
      by linarith
    moreover have "50000 * 1000 * a + 500000 * g \<le> 50000 * (999 * a) + 999 * 999 * g"
      using high pos by linarith
    ultimately have "100 * a + g \<le> 100 * double (a + i)"
      by linarith
    then show ?thesis
      by simp
  qed
  have "of_nat (Suc k) * (g / 100) = of_nat k * (g / 100) + g / 100"
    by (simp add: algebra_simps)
  with gain low have "of_nat (Suc k) * (g / 100) \<le> double (a + i)"
    by simp
  with step below show ?case
    by blast
qed

lemma cleared_within_100:
  assumes "list_ex is_digit t" and "0 < decimal (filter is_digit t)"
  shows "cleared (ticks 100 (animateCounter t))"
proof (rule ccontr)
  let ?c = "animateCounter t"
  assume running: "\<not> cleared (ticks 100 ?c)"
  have "\<not> cleared (ticks 1 ?c)"
    using running cleared_later [of 1 ?c 99] by auto
  from finite_counter [OF assms this] obtain g i where
    gi: "target ?c = Num g" "increment ?c = Num i" "999 / 1000 \<le> g"
      "999 / 1000 * (g / 50) \<le> i"
    by blast
  have "current ?c = Num 0"
    by (simp add: animateCounter_digits [OF assms(1)])
  from progress [OF gi(1,2) this gi(3,4) running] obtain a :: rat where
    "of_nat 100 * (g / 100) \<le> a" and "a < g"
    by blast
  then show False
    by simp
qed

lemma cleared_by_100:
  assumes "list_ex is_digit t"
  shows "cleared (ticks 100 (animateCounter t))"
proof (cases "decimal (filter is_digit t) = 0")
  case True
  then have "cleared (ticks 1 (animateCounter t))"
    using ticks_zero_target [OF assms] by simp
  then show ?thesis
    using cleared_later [of 1 "animateCounter t" 99] by simp
next
  case False
  then show ?thesis
    using cleared_within_100 [OF assms] by simp
qed

lemma eventually_cleared:
  assumes "list_ex is_digit t"
  shows "\<exists>k. cleared (ticks k (animateCounter t))"
  using cleared_by_100 [OF assms] ..


lemma counter_frames:
  assumes "list_ex is_digit t" and "decimal (filter is_digit t) \<le> 2 ^ 53"
  shows "let c = animateCounter t; n = decimal (filter is_digit t);
             s = filter (\<lambda>c. \<not> is_digit c) t
         in target c = Num (of_nat n) \<and> suffix c = s \<and> current c = Num 0 \<and>
            textContent c = t \<and>
            increment c = js_divide (target c) (Num 50) \<and>
            stepTime c = js_divide (Num 2000) (Num 50) \<and> stepTime c = Num 40 \<and>
            (\<forall>k. \<not> cleared (ticks k c) \<longrightarrow>
               current (ticks (Suc k) c) = js_add (current (ticks k c)) (increment c) \<and>
               (if js_ge (current (ticks (Suc k) c)) (target c)
                then cleared (ticks (Suc k) c) \<and>
                     textContent (ticks (Suc k) c) = number_toString (target c) @ s
                else \<not> cleared (ticks (Suc k) c) \<and>
                     textContent (ticks (Suc k) c) =
                       number_toString (Math_floor (current (ticks (Suc k) c))) @ s)) \<and>
            (\<forall>k. cleared (ticks k c) \<longrightarrow> ticks (Suc k) c = ticks k c) \<and>
            (0 < n \<and> 50 dvd n \<longrightarrow>
               (\<forall>k. 0 < k \<and> k < 50 \<longrightarrow>
                  \<not> cleared (ticks k c) \<and>
                  current (ticks k c) = Num (of_nat (k * (n div 50))) \<and>
                  textContent (ticks k c) = show_nat (k * (n div 50)) @ s) \<and>
               cleared (ticks 50 c) \<and>
               textContent (ticks 50 c) = show_nat n @ s \<and>
               (\<forall>j. ticks (50 + j) c = ticks 50 c)) \<and>
            (n = 0 \<longrightarrow> cleared (ticks 1 c) \<and> textContent (ticks 1 c) = show_nat 0 @ s)"
proof -
  let ?c = "animateCounter t"
  let ?n = "decimal (filter is_digit t)"
  let ?s = "filter (\<lambda>c. \<not> is_digit c) t"
  have init: "target ?c = Num (of_nat ?n)" "suffix ?c = ?s" "current ?c = Num 0"
    "textContent ?c = t"
    "increment ?c = js_divide (target ?c) (Num 50)"
    "stepTime ?c = js_divide (Num 2000) (Num 50)" "stepTime ?c = Num 40"
    by (simp_all add: animateCounter_digits [OF assms(1)] js_number_nat [OF assms(2)]
        js_number_numeral)
  have each: "current (ticks (Suc k) ?c) = js_add (current (ticks k ?c)) (increment ?c) \<and>
      (if js_ge (current (ticks (Suc k) ?c)) (target ?c)
       then cleared (ticks (Suc k) ?c) \<and>
            textContent (ticks (Suc k) ?c) = number_toString (target ?c) @ ?s
       else \<not> cleared (ticks (Suc k) ?c) \<and>
            textContent (ticks (Suc k) ?c) =
              number_toString (Math_floor (current (ticks (Suc k) ?c))) @ ?s)"
    if "\<not> cleared (ticks k ?c)" for k
    using ticks_step [OF that] unfolding init(2) .
  have rest: "ticks (Suc k) ?c = ticks k ?c" if "cleared (ticks k ?c)" for k
    using that by (simp add: ticks_Suc tick_def)
  have mid: "\<not> cleared (ticks k ?c) \<and>
      current (ticks k ?c) = Num (of_nat (k * (?n div 50))) \<and>
      textContent (ticks k ?c) = show_nat (k * (?n div 50)) @ ?s"
    if "0 < ?n" and "50 dvd ?n" and "0 < k" and "k < 50" for k
  proof -
    have r: "ticks k ?c = running t k"
      using assms(1) that(1,2) assms(2) that(4) by (rule ticks_running)
    have "textContent (running t k) = show_nat (k * (?n div 50)) @ ?s"
      using that(3) by (simp add: running_def Let_def)
    then show ?thesis
      unfolding r by (simp only: running_fields) simp
  qed
  have fin: "cleared (ticks 50 ?c) \<and>
      textContent (ticks 50 ?c) = show_nat ?n @ ?s \<and>
      (\<forall>j. ticks (50 + j) ?c = ticks 50 ?c)"
    if "0 < ?n" and "50 dvd ?n"
  proof -
    have c: "cleared (ticks 50 ?c)" "textContent (ticks 50 ?c) = show_nat ?n @ ?s"
      by (simp_all add: ticks_final [OF assms(1) that assms(2)])
    have "ticks (50 + j) ?c = ticks 50 ?c" for j
      using tick_cleared [OF c(1), of j] by (simp add: ticks_add add.commute)
    with c show ?thesis
      by simp
  qed
  have zero: "cleared (ticks 1 ?c) \<and> textContent (ticks 1 ?c) = show_nat 0 @ ?s" if "?n = 0"
    using ticks_zero_target [OF assms(1) that] by simp
  show ?thesis
    unfolding Let_def using init each rest mid fin zero by blast
qed

lemma counter_250:
  "list_ex is_digit (js ''250+'')"
  "decimal (filter is_digit (js ''250+'')) = 250"
  "filter (\<lambda>c. \<not> is_digit c) (js ''250+'') = js ''+''"
  "show_nat 5 = js ''5''" "show_nat 245 = js ''245''" "show_nat 250 = js ''250''"
  by code_simp+


text \<open>
  C7 (as amended). For a text with at least one digit (whose number is at most \<open>2^53\<close>),
  \<^verbatim>\<open>animateCounter\<close> starts from the value 0 with the increment \<open>target / 50\<close> and a timer of
  period \<open>2000 / 50 = 40\<close> ms, and leaves the element's text as it is. Every tick of the
  timer adds the increment to the accumulated value; when that reaches the target, the
  tick shows the target followed by the non-digit characters of the text and clears the
  timer, otherwise it shows the floor of the accumulated value followed by those
  characters; a cleared timer changes nothing any more. With a target that is a positive
  multiple of 50 the arithmetic is exact: the ticks 1 to 49 show \<open>k * target / 50\<close> and
  tick 50 is the final one. With target 0 the first tick is. For the text \<^verbatim>\<open>250+\<close> the 50
  updates show \<^verbatim>\<open>5+\<close>, \<^verbatim>\<open>10+\<close>, and so on up to \<^verbatim>\<open>245+\<close> and \<^verbatim>\<open>250+\<close>: the value 0 the counter
  starts from is never displayed.
\<close>

theorem counter_animation:
  "(list_ex is_digit t \<and> decimal (filter is_digit t) \<le> 2 ^ 53 \<longrightarrow>
     (let c = animateCounter t; n = decimal (filter is_digit t);
          s = filter (\<lambda>c. \<not> is_digit c) t
      in target c = Num (of_nat n) \<and> suffix c = s \<and> current c = Num 0 \<and>
         textContent c = t \<and>
         increment c = js_divide (target c) (Num 50) \<and>
         stepTime c = js_divide (Num 2000) (Num 50) \<and> stepTime c = Num 40 \<and>
         (\<forall>k. \<not> cleared (ticks k c) \<longrightarrow>
            current (ticks (Suc k) c) = js_add (current (ticks k c)) (increment c) \<and>
            (if js_ge (current (ticks (Suc k) c)) (target c)
             then cleared (ticks (Suc k) c) \<and>
                  textContent (ticks (Suc k) c) = number_toString (target c) @ s
             else \<not> cleared (ticks (Suc k) c) \<and>
                  textContent (ticks (Suc k) c) =
                    number_toString (Math_floor (current (ticks (Suc k) c))) @ s)) \<and>
         (\<forall>k. cleared (ticks k c) \<longrightarrow> ticks (Suc k) c = ticks k c) \<and>
         (0 < n \<and> 50 dvd n \<longrightarrow>
            (\<forall>k. 0 < k \<and> k < 50 \<longrightarrow>
               \<not> cleared (ticks k c) \<and>
               current (ticks k c) = Num (of_nat (k * (n div 50))) \<and>
               textContent (ticks k c) = show_nat (k * (n div 50)) @ s) \<and>
            cleared (ticks 50 c) \<and>
            textContent (ticks 50 c) = show_nat n @ s \<and>
            (\<forall>j. ticks (50 + j) c = ticks 50 c)) \<and>
         (n = 0 \<longrightarrow> cleared (ticks 1 c) \<and> textContent (ticks 1 c) = show_nat 0 @ s))) \<and>
   (let c = animateCounter (js ''250+'')
    in target c = Num 250 \<and> suffix c = js ''+'' \<and> current c = Num 0 \<and>
       textContent c = js ''250+'' \<and>
       (\<forall>k. 0 < k \<and> k \<le> 50 \<longrightarrow>
          textContent (ticks k c) = show_nat (5 * k) @ js ''+'' \<and>
          (cleared (ticks k c) \<longleftrightarrow> k = 50)) \<and>
       textContent (ticks 1 c) = js ''5+'' \<and>
       textContent (ticks 49 c) = js ''245+'' \<and>
       textContent (ticks 50 c) = js ''250+'' \<and>
       (\<forall>j. ticks (50 + j) c = ticks 50 c))"
proof -
  let ?c = "animateCounter (js ''250+'')"
  have small: "decimal (filter is_digit (js ''250+'')) \<le> 2 ^ 53"
    by (simp add: counter_250(2))
  note f = counter_frames [OF counter_250(1) small, unfolded Let_def counter_250(2,3)]
  have init: "target ?c = Num 250" "suffix ?c = js ''+''" "current ?c = Num 0"
    "textContent ?c = js ''250+''"
    using f by simp_all
  have pos: "0 < (250 :: nat) \<and> 50 dvd (250 :: nat)"
    by simp
  have mid: "\<not> cleared (ticks k ?c) \<and> textContent (ticks k ?c) = show_nat (5 * k) @ js ''+''"
    if "0 < k" and "k < 50" for k
  proof -
    have five: "k * (250 div 50) = 5 * k"
      by simp
    have "\<not> cleared (ticks k ?c) \<and>
        textContent (ticks k ?c) = show_nat (k * (250 div 50)) @ js ''+''"
      using f pos that by blast
    then show ?thesis
      unfolding five .
  qed
  have fin: "cleared (ticks 50 ?c)" "textContent (ticks 50 ?c) = show_nat 250 @ js ''+''"
    "\<And>j. ticks (50 + j) ?c = ticks 50 ?c"
    using f pos by blast+
  have each: "textContent (ticks k ?c) = show_nat (5 * k) @ js ''+'' \<and>
      (cleared (ticks k ?c) \<longleftrightarrow> k = 50)" if "0 < k" and "k \<le> 50" for k
  proof (cases "k = 50")
    case True
    with fin show ?thesis by simp
  next
    case False
    with that mid [of k] show ?thesis by simp
  qed
  have plus: "js ''5'' @ js ''+'' = js ''5+''" "js ''245'' @ js ''+'' = js ''245+''"
    "js ''250'' @ js ''+'' = js ''250+''"
    by (simp_all add: js_def)
  have shown: "textContent (ticks 1 ?c) = js ''5+''" "textContent (ticks 49 ?c) = js ''245+''"
    "textContent (ticks 50 ?c) = js ''250+''"
    using mid [of 1] mid [of 49] fin(2) by (simp_all add: counter_250 plus)
  have general: "list_ex is_digit t \<and> decimal (filter is_digit t) \<le> 2 ^ 53 \<longrightarrow>
     (let c = animateCounter t; n = decimal (filter is_digit t);
          s = filter (\<lambda>c. \<not> is_digit c) t
      in target c = Num (of_nat n) \<and> suffix c = s \<and> current c = Num 0 \<and>
         textContent c = t \<and>
         increment c = js_divide (target c) (Num 50) \<and>
         stepTime c = js_divide (Num 2000) (Num 50) \<and> stepTime c = Num 40 \<and>
         (\<forall>k. \<not> cleared (ticks k c) \<longrightarrow>
            current (ticks (Suc k) c) = js_add (current (ticks k c)) (increment c) \<and>
            (if js_ge (current (ticks (Suc k) c)) (target c)
             then cleared (ticks (Suc k) c) \<and>
                  textContent (ticks (Suc k) c) = number_toString (target c) @ s
             else \<not> cleared (ticks (Suc k) c) \<and>
                  textContent (ticks (Suc k) c) =
                    number_toString (Math_floor (current (ticks (Suc k) c))) @ s)) \<and>
         (\<forall>k. cleared (ticks k c) \<longrightarrow> ticks (Suc k) c = ticks k c) \<and>
         (0 < n \<and> 50 dvd n \<longrightarrow>
            (\<forall>k. 0 < k \<and> k < 50 \<longrightarrow>
               \<not> cleared (ticks k c) \<and>
               current (ticks k c) = Num (of_nat (k * (n div 50))) \<and>
               textContent (ticks k c) = show_nat (k * (n div 50)) @ s) \<and>
            cleared (ticks 50 c) \<and>
            textContent (ticks 50 c) = show_nat n @ s \<and>
            (\<forall>j. ticks (50 + j) c = ticks 50 c)) \<and>
         (n = 0 \<longrightarrow> cleared (ticks 1 c) \<and> textContent (ticks 1 c) = show_nat 0 @ s))"
    using counter_frames [of t] by blast
  show ?thesis
    unfolding Let_def
    using general [unfolded Let_def] init each shown fin(3) by blast
qed

text \<open>
  C10. The timer of \<^verbatim>\<open>animateCounter\<close> is cleared after some number of ticks if and only
  if the element's text has at least one digit, and then at tick 100 at the latest,
  whatever the rounding of the sums does. With no digit the target is \<^verbatim>\<open>NaN\<close>, the
  comparison \<^verbatim>\<open>current >= target\<close> fails at every tick, the timer is never cleared, and
  from the first tick on the element shows \<^verbatim>\<open>NaN\<close> followed by the suffix (the whole
  original text).
\<close>

theorem counter_termination:
  "((\<exists>k. cleared (ticks k (animateCounter t))) \<longleftrightarrow> list_ex is_digit t) \<and>
   (list_ex is_digit t \<longrightarrow> cleared (ticks 100 (animateCounter t))) \<and>
   (\<not> list_ex is_digit t \<longrightarrow>
      target (animateCounter t) = NaN \<and>
      (\<forall>k. \<not> cleared (ticks k (animateCounter t)) \<and>
           \<not> js_ge (current (ticks (Suc k) (animateCounter t))) (target (animateCounter t)) \<and>
           textContent (ticks (Suc k) (animateCounter t)) =
             js ''NaN'' @ suffix (animateCounter t)))"
proof -
  have stuck: "target (animateCounter t) = NaN \<and>
      (\<forall>k. \<not> cleared (ticks k (animateCounter t)) \<and>
           \<not> js_ge (current (ticks (Suc k) (animateCounter t))) (target (animateCounter t)) \<and>
           textContent (ticks (Suc k) (animateCounter t)) =
             js ''NaN'' @ suffix (animateCounter t))"
    if no: "\<not> list_ex is_digit t"
  proof -
    have "\<not> js_ge (current (ticks (Suc k) (animateCounter t))) (target (animateCounter t)) \<and>
        textContent (ticks (Suc k) (animateCounter t)) = js ''NaN'' @ suffix (animateCounter t)"
      for k
      unfolding ticks_NaN [OF no] by (simp add: animateCounter_no_digits [OF no])
    moreover have "target (animateCounter t) = NaN"
      by (simp add: animateCounter_no_digits [OF no])
    ultimately show ?thesis
      using never_cleared [OF no] by blast
  qed
  have "(\<exists>k. cleared (ticks k (animateCounter t))) \<longleftrightarrow> list_ex is_digit t"
    using eventually_cleared [of t] never_cleared [of t] by blast
  with stuck cleared_by_100 [of t] show ?thesis
    by blast
qed

theorem counter_animation_witness:
  "let c = animateCounter (js ''$100M'')
   in target c = Num 100 \<and> \<not> cleared (ticks 25 c) \<and> textContent (ticks 25 c) = js ''50$M'' \<and>
      cleared (ticks 50 c) \<and> textContent (ticks 50 c) = js ''100$M''"
proof -
  have d: "list_ex is_digit (js ''$100M'')" "decimal (filter is_digit (js ''$100M'')) = 100"
    "filter (\<lambda>c. \<not> is_digit c) (js ''$100M'') = js ''$M''"
    "show_nat 50 = js ''50''" "show_nat 100 = js ''100''"
    by code_simp+
  have e: "js ''50'' @ js ''$M'' = js ''50$M''" "js ''100'' @ js ''$M'' = js ''100$M''"
    by (simp_all add: js_def)
  have k: "(0::nat) < 100 \<and> 50 dvd (100::nat)"
    "(0::nat) < 25 \<and> (25::nat) < 50" "25 * (100 div 50) = (50::nat)"
    by simp_all
  have small: "list_ex is_digit (js ''$100M'') \<and>
      decimal (filter is_digit (js ''$100M'')) \<le> 2 ^ 53"
    by (simp add: d(1,2))
  note w = counter_animation [of "js ''$100M''", THEN conjunct1, rule_format, OF small,
      unfolded Let_def d(2,3)]
  have "target (animateCounter (js ''$100M'')) = Num (of_nat 100)"
    using w by blast
  moreover have "\<not> cleared (ticks 25 (animateCounter (js ''$100M''))) \<and>
      textContent (ticks 25 (animateCounter (js ''$100M''))) =
        show_nat (25 * (100 div 50)) @ js ''$M''"
    using w k(1,2) by blast
  moreover have "cleared (ticks 50 (animateCounter (js ''$100M''))) \<and>
      textContent (ticks 50 (animateCounter (js ''$100M''))) = show_nat 100 @ js ''$M''"
    using w k(1) by blast
  ultimately show ?thesis
    by (simp add: Let_def k(3) d(4,5) e)
qed

text \<open>
  The claim as first stated has the animation of \<^verbatim>\<open>250+\<close> go from \<^verbatim>\<open>0+\<close>. The element shows
  its original text until the first update, and the first update shows \<^verbatim>\<open>5+\<close>.
\<close>

theorem counter_starts_at_zero_counterexample:
  "textContent (ticks 0 (animateCounter (js ''250+''))) = js ''250+'' \<and>
   textContent (ticks 0 (animateCounter (js ''250+''))) \<noteq> js ''0+'' \<and>
   textContent (ticks 1 (animateCounter (js ''250+''))) = js ''5+'' \<and>
   textContent (ticks 1 (animateCounter (js ''250+''))) \<noteq> js ''0+''"
proof -
  have n: "0 < decimal (filter is_digit (js ''250+''))"
    "50 dvd decimal (filter is_digit (js ''250+''))"
    "decimal (filter is_digit (js ''250+'')) \<le> 2 ^ 53"
    by (simp_all add: counter_250(2))
  have "ticks 0 (animateCounter (js ''250+'')) = running (js ''250+'') 0"
    "ticks 1 (animateCounter (js ''250+'')) = running (js ''250+'') 1"
    using ticks_running [OF counter_250(1) n] by simp_all
  then have "textContent (ticks 0 (animateCounter (js ''250+''))) = js ''250+''"
    "textContent (ticks 1 (animateCounter (js ''250+''))) = show_nat 5 @ js ''+''"
    by (simp_all add: running_def counter_250(2,3))
  then show ?thesis
    by (simp add: counter_250(4) js_def)
qed

theorem counter_termination_witness:
  "\<not> cleared (ticks 1000 (animateCounter (js ''abc''))) \<and>
   textContent (ticks 3 (animateCounter (js ''abc''))) = js ''NaNabc'' \<and>
   cleared (ticks 100 (animateCounter (js ''7%'')))"
proof -
  have d: "\<not> list_ex is_digit (js ''abc'')" "list_ex is_digit (js ''7%'')"
    by code_simp+
  have s: "suffix (animateCounter (js ''abc'')) = js ''abc''"
    by (simp add: animateCounter_no_digits [OF d(1)])
  have e: "js ''NaN'' @ js ''abc'' = js ''NaNabc''"
    by (simp add: js_def)
  have "\<not> cleared (ticks 1000 (animateCounter (js ''abc'')))"
    using counter_termination [of "js ''abc''"] d(1) by blast
  moreover have "textContent (ticks (Suc 2) (animateCounter (js ''abc''))) =
      js ''NaN'' @ suffix (animateCounter (js ''abc''))"
    using counter_termination [of "js ''abc''"] d(1) by blast
  moreover have "cleared (ticks 100 (animateCounter (js ''7%'')))"
    using counter_termination [of "js ''7%''"] d(2) by blast
  ultimately show ?thesis
    by (simp add: s e numeral_3_eq_3)
qed

section \<open>Properties of the observers\<close>

lemma fade_entry_keeps:
  "x \<in> visible st \<Longrightarrow> x \<in> visible (fade_entry st en)"
  "x \<notin> observed st \<Longrightarrow> x \<notin> observed (fade_entry st en)"
  by (simp_all add: fade_entry_def)

lemma fade_callback_keeps:
  "x \<in> visible st \<Longrightarrow> x \<in> visible (fade_callback st entries)"
  "x \<notin> observed st \<Longrightarrow> x \<notin> observed (fade_callback st entries)"
  unfolding fade_callback_def
  by (induction entries arbitrary: st) (simp_all add: fade_entry_keeps)

lemma fade_callback_others:
  assumes "list_all (\<lambda>en. entryTarget en \<noteq> x) entries"
  shows "(x \<in> visible (fade_callback st entries) \<longleftrightarrow> x \<in> visible st) \<and>
         (x \<in> observed (fade_callback st entries) \<longleftrightarrow> x \<in> observed st)"
  using assms unfolding fade_callback_def
  by (induction entries arbitrary: st) (auto simp: fade_entry_def)

lemma fade_callback_reveals:
  assumes "en \<in> set entries" and "isIntersecting en"
  shows "entryTarget en \<in> visible (fade_callback st entries) \<and>
         entryTarget en \<notin> observed (fade_callback st entries)"
  using assms(1)
proof (induction entries arbitrary: st)
  case Nil
  then show ?case by simp
next
  case (Cons e es)
  show ?case
  proof (cases "e = en")
    case True
    have "entryTarget en \<in> visible (fade_entry st en)"
      "entryTarget en \<notin> observed (fade_entry st en)"
      using assms(2) by (simp_all add: fade_entry_def)
    then have "entryTarget en \<in> visible (fade_callback (fade_entry st en) es) \<and>
        entryTarget en \<notin> observed (fade_callback (fade_entry st en) es)"
      by (simp add: fade_callback_keeps)
    with True show ?thesis
      by (simp add: fade_callback_def)
  next
    case False
    with Cons.prems have "en \<in> set es"
      by simp
    then show ?thesis
      using Cons.IH [of "fade_entry st e"] by (simp add: fade_callback_def)
  qed
qed

lemma fade_notify_unobserved:
  assumes "x \<notin> observed st"
  shows "(x \<in> visible (fade_notify st records) \<longleftrightarrow> x \<in> visible st) \<and>
         x \<notin> observed (fade_notify st records)"
proof -
  have "list_all (\<lambda>en. entryTarget en \<noteq> x)
      (filter (\<lambda>en. entryTarget en \<in> observed st) records)"
    using assms by (auto simp: list_all_iff)
  from fade_callback_others [OF this] assms show ?thesis
    by (simp add: fade_notify_def)
qed

lemma fade_run_unobserved:
  assumes "x \<notin> observed st"
  shows "(x \<in> visible (fade_run st batches) \<longleftrightarrow> x \<in> visible st) \<and>
         x \<notin> observed (fade_run st batches)"
  using assms unfolding fade_run_def
proof (induction batches arbitrary: st)
  case Nil
  then show ?case by simp
next
  case (Cons b bs)
  from fade_notify_unobserved [OF Cons.prems, of b] Cons.IH [of "fade_notify st b"]
  show ?case by simp
qed

lemma fade_notify_reveals:
  assumes "x \<in> observed st" and "\<lparr> entryTarget = x, isIntersecting = True \<rparr> \<in> set records"
  shows "x \<in> visible (fade_notify st records) \<and> x \<notin> observed (fade_notify st records)"
proof -
  let ?en = "\<lparr> entryTarget = x, isIntersecting = True \<rparr>"
  have "?en \<in> set (filter (\<lambda>en. entryTarget en \<in> observed st) records)"
    using assms by simp
  from fade_callback_reveals [OF this, of st] show ?thesis
    by (simp add: fade_notify_def)
qed


lemma counter_entry_counted:
  assumes "x \<in> counted st"
  shows "x \<in> counted (counter_entry st en) \<and>
         animations x (counter_entry st en) = animations x st"
  using assms by (auto simp: counter_entry_def animations_def)

lemma counter_entry_other:
  assumes "entryTarget en \<noteq> x \<or> \<not> isIntersecting en"
  shows "(x \<in> counted (counter_entry st en) \<longleftrightarrow> x \<in> counted st) \<and>
         animations x (counter_entry st en) = animations x st"
  using assms by (auto simp: counter_entry_def animations_def)

lemma counter_entry_first:
  assumes "x \<notin> counted st" and "entryTarget en = x" and "isIntersecting en"
  shows "x \<in> counted (counter_entry st en) \<and>
         animations x (counter_entry st en) = animations x st + 1"
  using assms by (auto simp: counter_entry_def animations_def)

lemma counter_entries_counted:
  assumes "x \<in> counted st"
  shows "x \<in> counted (foldl counter_entry st entries) \<and>
         animations x (foldl counter_entry st entries) = animations x st"
  using assms
proof (induction entries arbitrary: st)
  case Nil
  then show ?case by simp
next
  case (Cons e es)
  from counter_entry_counted [OF Cons.prems, of e] Cons.IH [of "counter_entry st e"]
  show ?case by simp
qed

lemma counter_entries_first:
  assumes "x \<notin> counted st" and "\<lparr> entryTarget = x, isIntersecting = True \<rparr> \<in> set entries"
  shows "x \<in> counted (foldl counter_entry st entries) \<and>
         animations x (foldl counter_entry st entries) = animations x st + 1"
  using assms
proof (induction entries arbitrary: st)
  case Nil
  then show ?case by simp
next
  case (Cons e es)
  show ?case
  proof (cases "entryTarget e = x \<and> isIntersecting e")
    case True
    with Cons.prems(1) have "x \<in> counted (counter_entry st e) \<and>
        animations x (counter_entry st e) = animations x st + 1"
      by (simp add: counter_entry_first)
    with counter_entries_counted [of x "counter_entry st e" es] show ?thesis
      by simp
  next
    case False
    then have other: "(x \<in> counted (counter_entry st e) \<longleftrightarrow> x \<in> counted st) \<and>
        animations x (counter_entry st e) = animations x st"
      by (intro counter_entry_other) auto
    from False Cons.prems(2) have "\<lparr> entryTarget = x, isIntersecting = True \<rparr> \<in> set es"
      by auto
    with other Cons.prems(1) Cons.IH [of "counter_entry st e"] show ?thesis
      by simp
  qed
qed

lemma counter_entry_bound:
  assumes "\<And>x. animations x st \<le> (if x \<in> counted st then 1 else 0)"
  shows "animations x (counter_entry st en) \<le> (if x \<in> counted (counter_entry st en) then 1 else 0)"
  using assms [of x] assms [of "entryTarget en"]
  by (auto simp: counter_entry_def animations_def)

lemma counter_entries_bound:
  assumes "\<And>x. animations x st \<le> (if x \<in> counted st then 1 else 0)"
  shows "animations x (foldl counter_entry st entries) \<le>
         (if x \<in> counted (foldl counter_entry st entries) then 1 else 0)"
  using assms
proof (induction entries arbitrary: st x)
  case Nil
  then show ?case by simp
next
  case (Cons e es)
  have "\<And>y. animations y (counter_entry st e) \<le> (if y \<in> counted (counter_entry st e) then 1 else 0)"
    using Cons.prems by (rule counter_entry_bound)
  from Cons.IH [OF this] show ?case
    by simp
qed

lemma timer_fires_same:
  "counted (timer_fires st i) = counted st \<and> animations x (timer_fires st i) = animations x st"
proof -
  have "map fst ((timers st)[i := (fst (timers st ! i), c)]) = map fst (timers st)"
    if "i < length (timers st)" for c
    using that by (simp add: map_update list_update_same_conv)
  then show ?thesis
    by (auto simp: timer_fires_def animations_def Let_def split: prod.splits)
qed

lemma stats_step_bound:
  assumes "\<And>x. animations x st \<le> (if x \<in> counted st then 1 else 0)"
  shows "animations x (stats_step st ev) \<le> (if x \<in> counted (stats_step st ev) then 1 else 0)"
proof (cases ev)
  case (Notify records)
  with counter_entries_bound [of st x] assms show ?thesis
    by (simp add: counter_notify_def)
next
  case (Tick i)
  with timer_fires_same [of st i x] assms [of x] show ?thesis
    by simp
qed

lemma stats_run_bound:
  assumes "\<And>x. animations x st \<le> (if x \<in> counted st then 1 else 0)"
  shows "animations x (stats_run st events) \<le> (if x \<in> counted (stats_run st events) then 1 else 0)"
  using assms unfolding stats_run_def
proof (induction events arbitrary: st x)
  case Nil
  then show ?case by simp
next
  case (Cons ev evs)
  have "\<And>y. animations y (stats_step st ev) \<le> (if y \<in> counted (stats_step st ev) then 1 else 0)"
    using Cons.prems by (rule stats_step_bound)
  from Cons.IH [OF this] show ?case
    by simp
qed

lemma stats_step_counted:
  assumes "x \<in> counted st"
  shows "x \<in> counted (stats_step st ev) \<and> animations x (stats_step st ev) = animations x st"
proof (cases ev)
  case (Notify records)
  with counter_entries_counted [OF assms] show ?thesis
    by (simp add: counter_notify_def)
next
  case (Tick i)
  with timer_fires_same [of st i x] assms show ?thesis
    by simp
qed

lemma stats_run_counted:
  assumes "x \<in> counted st"
  shows "x \<in> counted (stats_run st events) \<and> animations x (stats_run st events) = animations x st"
  using assms unfolding stats_run_def
proof (induction events arbitrary: st)
  case Nil
  then show ?case by simp
next
  case (Cons ev evs)
  from stats_step_counted [OF Cons.prems, of ev] Cons.IH [of "stats_step st ev"]
  show ?case by simp
qed

text \<open>
  C8. Fade-in: when an observed element has a qualifying intersection in a batch, then
  after that batch and after any further batches it is visible and no longer observed;
  and for an element that is not observed, no batch, whatever crossings it reports,
  changes whether it is visible or observed. Counters: in every run of notifications
  and timer ticks from \<^verbatim>\<open>initCounterAnimation\<close>, \<^verbatim>\<open>animateCounter\<close> is called at most once for
  an element; the first qualifying intersection of an observed, unmarked element marks
  it and calls \<^verbatim>\<open>animateCounter\<close> exactly once, even when the batch names it several
  times; and for a marked element no later event calls it again or removes the mark.
\<close>

theorem one_shot_animations:
  "(x \<in> observed st \<and> \<lparr> entryTarget = x, isIntersecting = True \<rparr> \<in> set records \<longrightarrow>
      x \<in> visible (fade_run (fade_notify st records) batches) \<and>
      x \<notin> observed (fade_run (fade_notify st records) batches)) \<and>
   (x \<notin> observed st \<longrightarrow>
      x \<notin> observed (fade_run st batches) \<and>
      (x \<in> visible (fade_run st batches) \<longleftrightarrow> x \<in> visible st)) \<and>
   animations x (stats_run (initCounterAnimation stats texts marked) events) \<le> 1 \<and>
   (x \<in> statNumbers cs \<and> x \<notin> counted cs \<and>
    \<lparr> entryTarget = x, isIntersecting = True \<rparr> \<in> set records \<longrightarrow>
      x \<in> counted (counter_notify cs records) \<and>
      animations x (counter_notify cs records) = animations x cs + 1) \<and>
   (x \<in> counted cs \<longrightarrow>
      x \<in> counted (stats_run cs events) \<and>
      animations x (stats_run cs events) = animations x cs)"
proof -
  have fade_first: "x \<in> visible (fade_run (fade_notify st records) batches) \<and>
      x \<notin> observed (fade_run (fade_notify st records) batches)"
    if "x \<in> observed st" and "\<lparr> entryTarget = x, isIntersecting = True \<rparr> \<in> set records"
    using fade_notify_reveals [OF that] fade_run_unobserved [of x "fade_notify st records" batches]
    by simp
  have fade_later: "x \<notin> observed (fade_run st batches) \<and>
      (x \<in> visible (fade_run st batches) \<longleftrightarrow> x \<in> visible st)" if "x \<notin> observed st"
    using fade_run_unobserved [OF that, of batches] by simp
  have "animations y (initCounterAnimation stats texts marked) \<le>
      (if y \<in> counted (initCounterAnimation stats texts marked) then 1 else 0)" for y
    by (simp add: initCounterAnimation_def animations_def)
  from stats_run_bound [OF this, of x events]
  have once: "animations x (stats_run (initCounterAnimation stats texts marked) events) \<le> 1"
    by (simp split: if_splits)
  have count_first: "x \<in> counted (counter_notify cs records) \<and>
      animations x (counter_notify cs records) = animations x cs + 1"
    if "x \<in> statNumbers cs" and "x \<notin> counted cs"
      and "\<lparr> entryTarget = x, isIntersecting = True \<rparr> \<in> set records"
  proof -
    have "\<lparr> entryTarget = x, isIntersecting = True \<rparr> \<in>
        set (filter (\<lambda>en. entryTarget en \<in> statNumbers cs) records)"
      using that(1,3) by simp
    from counter_entries_first [OF that(2) this] show ?thesis
      by (simp add: counter_notify_def)
  qed
  from fade_first fade_later once count_first stats_run_counted [of x cs events]
  show ?thesis
    by blast
qed


theorem one_shot_animations_witness:
  "(let enter = \<lparr> entryTarget = 1, isIntersecting = True \<rparr>;
        leave = \<lparr> entryTarget = 1, isIntersecting = False \<rparr>;
        st = fade_run (initScrollAnimations [1] {}) [[enter], [leave], [enter]]
    in 1 \<in> visible st \<and> 1 \<notin> observed st) \<and>
   (let enter = \<lparr> entryTarget = 1, isIntersecting = True \<rparr>;
        leave = \<lparr> entryTarget = 1, isIntersecting = False \<rparr>;
        cs = stats_run (initCounterAnimation [1] (\<lambda>el. js ''250+'') {})
               [Notify [enter], Notify [leave], Tick 0, Notify [enter, enter]]
    in 1 \<in> counted cs \<and> animations 1 cs = 1)"
proof -
  let ?enter = "\<lparr> entryTarget = 1, isIntersecting = True \<rparr>"
  let ?leave = "\<lparr> entryTarget = 1, isIntersecting = False \<rparr>"
  let ?st = "initScrollAnimations [1] {}"
  let ?cs = "initCounterAnimation [1] (\<lambda>el. js ''250+'') {}"
  have "1 \<in> observed ?st \<and> ?enter \<in> set [?enter]"
    by (simp add: initScrollAnimations_def)
  with one_shot_animations [of 1 ?st "[?enter]" "[[?leave], [?enter]]"]
  have "1 \<in> visible (fade_run (fade_notify ?st [?enter]) [[?leave], [?enter]]) \<and>
      1 \<notin> observed (fade_run (fade_notify ?st [?enter]) [[?leave], [?enter]])"
    by blast
  then have fade: "1 \<in> visible (fade_run ?st [[?enter], [?leave], [?enter]]) \<and>
      1 \<notin> observed (fade_run ?st [[?enter], [?leave], [?enter]])"
    by (simp add: fade_run_def)
  have "1 \<in> statNumbers ?cs \<and> 1 \<notin> counted ?cs \<and> ?enter \<in> set [?enter]"
    by (simp add: initCounterAnimation_def)
  with one_shot_animations [of 1 _ "[?enter]" _ _ _ _ _ ?cs]
  have "1 \<in> counted (counter_notify ?cs [?enter]) \<and>
      animations 1 (counter_notify ?cs [?enter]) = animations 1 ?cs + 1"
    by blast
  then have first: "1 \<in> counted (counter_notify ?cs [?enter])"
    "animations 1 (counter_notify ?cs [?enter]) = 1"
    by (simp_all add: animations_def initCounterAnimation_def)
  from one_shot_animations [of 1 _ _ _ _ _ _
      "[Notify [?leave], Tick 0, Notify [?enter, ?enter]]" "counter_notify ?cs [?enter]"] first
  have "1 \<in> counted (stats_run (counter_notify ?cs [?enter])
        [Notify [?leave], Tick 0, Notify [?enter, ?enter]]) \<and>
      animations 1 (stats_run (counter_notify ?cs [?enter])
        [Notify [?leave], Tick 0, Notify [?enter, ?enter]]) = 1"
    by simp
  then have count: "1 \<in> counted (stats_run ?cs
        [Notify [?enter], Notify [?leave], Tick 0, Notify [?enter, ?enter]]) \<and>
      animations 1 (stats_run ?cs
        [Notify [?enter], Notify [?leave], Tick 0, Notify [?enter, ?enter]]) = 1"
    by (simp add: stats_run_def)
  from fade count show ?thesis
    unfolding Let_def by (rule conjI)
qed

end
